theory Spec2Isabelle
  imports Main "HOL-Library.Char_ord" "HOL-Library.List_Lexorder"
begin

section \<open>Strings as the scripts use them\<close>

text \<open>
  Names, header values and URLs are \<^typ>\<open>string\<close>s. The model covers the ASCII
  range: \<open>lower\<close> folds \<open>A\<close>..\<open>Z\<close> only, and white space is what
  \<^verbatim>\<open>str.strip\<close> removes among the ASCII characters (9..13 and 28..32).
  Strings are compared by code point, as Python does (the lexicographic order on
  \<^typ>\<open>char list\<close>).
\<close>

definition lower_char :: "char \<Rightarrow> char" where
  "lower_char c =
     (if 65 \<le> (of_char c :: nat) \<and> (of_char c :: nat) \<le> 90
      then char_of ((of_char c :: nat) + 32) else c)"

definition lower :: "string \<Rightarrow> string" where
  "lower s = map lower_char s"

definition is_space :: "char \<Rightarrow> bool" where
  "is_space c =
     (let n = (of_char c :: nat) in (9 \<le> n \<and> n \<le> 13) \<or> (28 \<le> n \<and> n \<le> 32))"

definition strip :: "string \<Rightarrow> string" where
  "strip s = rev (dropWhile is_space (rev (dropWhile is_space s)))"

definition startswith :: "string \<Rightarrow> string \<Rightarrow> bool" where
  "startswith s p = (take (length p) s = p)"

text \<open>
  \<open>split_once sep s\<close> is \<^verbatim>\<open>s.split(sep, 1)\<close> for a separator that occurs:
  the text before and after its leftmost occurrence; \<open>None\<close> when \<open>sep\<close> does
  not occur, so that \<^verbatim>\<open>sep in s\<close> is \<open>split_once sep s \<noteq> None\<close>.
\<close>

fun split_once :: "string \<Rightarrow> string \<Rightarrow> (string \<times> string) option" where
  "split_once sep [] = (if sep = [] then Some ([], []) else None)"
| "split_once sep (c # cs) =
     (if startswith (c # cs) sep then Some ([], drop (length sep) (c # cs))
      else (case split_once sep cs of
              None \<Rightarrow> None
            | Some (before, after) \<Rightarrow> Some (c # before, after)))"

definition SEP :: string where
  "SEP = '' // ''"

definition contains_sep :: "string \<Rightarrow> bool" where
  "contains_sep s = (split_once SEP s \<noteq> None)"

definition front_of :: "string \<Rightarrow> string" where
  "front_of s = (case split_once SEP s of None \<Rightarrow> s | Some (before, after) \<Rightarrow> before)"

text \<open>
  \<^verbatim>\<open>int(s)\<close> on a string: surrounding white space is skipped (for \<^verbatim>\<open>int\<close> that is
  tab, line feed, vertical tab, form feed, carriage return and space; the separators
  28..31 that \<^verbatim>\<open>str.strip\<close> removes are not skipped), one sign is allowed, then decimal
  digits, where single underscores may stand between digits. More than 4300 digits are
  refused (the default limit of CPython 3.11 and later). \<open>None\<close> is the
  \<^verbatim>\<open>ValueError\<close>.
\<close>

definition is_digit :: "char \<Rightarrow> bool" where
  "is_digit c = (48 \<le> (of_char c :: nat) \<and> (of_char c :: nat) \<le> 57)"

definition is_int_space :: "char \<Rightarrow> bool" where
  "is_int_space c =
     (let n = (of_char c :: nat) in (9 \<le> n \<and> n \<le> 13) \<or> n = 32)"

definition int_strip :: "string \<Rightarrow> string" where
  "int_strip s = rev (dropWhile is_int_space (rev (dropWhile is_int_space s)))"

fun digits_from :: "int \<Rightarrow> nat \<Rightarrow> bool \<Rightarrow> string \<Rightarrow> int option" where
  "digits_from acc n after_digit [] = (if after_digit \<and> n \<le> 4300 then Some acc else None)"
| "digits_from acc n after_digit (c # cs) =
     (if is_digit c then digits_from (10 * acc + ((of_char c :: int) - 48)) (Suc n) True cs
      else if c = CHR ''_'' \<and> after_digit then digits_from acc n False cs
      else None)"

definition py_int :: "string \<Rightarrow> int option" where
  "py_int s =
     (case int_strip s of
        [] \<Rightarrow> None
      | c # cs \<Rightarrow>
          if c = CHR ''-'' then map_option uminus (digits_from 0 0 False cs)
          else if c = CHR ''+'' then digits_from 0 0 False cs
          else digits_from 0 0 False (c # cs))"

section \<open>Errors and the network\<close>

text \<open>
  Every way a run can stop early is a value. \<open>SystemExit n\<close> is \<^verbatim>\<open>sys.exit(n)\<close>;
  \<open>RuntimeError\<close> is the \<^verbatim>\<open>raise RuntimeError("Unreachable")\<close> after the retry
  loop of \<open>fetch_batch\<close>; \<open>ValueError\<close> is \<^verbatim>\<open>int\<close> on a string that is no
  integer (and \<^verbatim>\<open>range\<close> with step 0); \<open>OverflowError\<close> is \<^verbatim>\<open>time.sleep\<close> on a
  number of seconds too large for it; \<open>TypeError\<close> is \<^verbatim>\<open>" // " in None\<close>;
  \<open>UnboundLocalError\<close> is reading \<^verbatim>\<open>page\<close> before any assignment;
  \<open>RequestException\<close> is the exception \<open>stream_cards\<close> re-raises on its last
  attempt. \<open>ResponsesExhausted\<close> belongs to the model only: the scripted
  response sequence ended while the program was still asking.
\<close>

datatype error =
    SystemExit nat
  | RuntimeError
  | ValueError
  | OverflowError
  | TypeError
  | UnboundLocalError
  | RequestException
  | ResponsesExhausted

text \<open>
  What one call of \<^verbatim>\<open>session.post\<close> or \<^verbatim>\<open>session.get\<close> gives: the call raises
  \<^verbatim>\<open>requests.RequestException\<close> (\<open>RequestFailed\<close>: connection reset, timeout, DNS),
  or a response arrives with its status code, its \<^verbatim>\<open>Retry-After\<close> header when
  present, and the document its body decodes to (bodies that do not decode are outside
  the model).
\<close>

datatype 'b response =
    RequestFailed
  | Reply nat "string option" 'b

datatype pause =
    RateLimitPause int
  | BackoffPause nat

text \<open>
  The world a run talks to: the responses still to come, in order, and what the run has
  done so far: the requests it sent and the pauses it made (\<^verbatim>\<open>time.sleep\<close>).
  \<open>RateLimitPause s\<close> sleeps \<open>s\<close> seconds; \<open>BackoffPause a\<close> sleeps
  \<^verbatim>\<open>base ** a\<close> seconds (1.5 in \<open>fetch_batch\<close>, 2 in \<open>stream_cards\<close>).
\<close>

record ('q, 'b) net =
  pending :: "'b response list"
  sent :: "'q list"
  slept :: "pause list"

definition script :: "'b response list \<Rightarrow> ('q, 'b) net" where
  "script rs = \<lparr>pending = rs, sent = [], slept = []\<rparr>"

text \<open>\<^verbatim>\<open>resp.raise_for_status()\<close> raises for the statuses 400..599.\<close>

definition raises_for_status :: "nat \<Rightarrow> bool" where
  "raises_for_status status_code = (400 \<le> status_code \<and> status_code < 600)"

text \<open>
  \<^verbatim>\<open>time.sleep(secs)\<close> with an integer: CPython turns the seconds into nanoseconds in a
  signed 64-bit integer and raises \<^verbatim>\<open>OverflowError\<close> when they do not fit, that is
  above 9223372036 seconds; \<open>None\<close> means that the call sleeps and returns. (Within
  the machine's uptime of that bound the operating system may refuse the deadline; no
  theorem below relies on a pause of more than \<open>2 ^ 32\<close> seconds.)
\<close>

definition time_sleep :: "int \<Rightarrow> error option" where
  "time_sleep secs = (if 9223372036 < secs then Some OverflowError else None)"

text \<open>
  \<^verbatim>\<open>retry_after = int(resp.headers.get("Retry-After", "1"))\<close> followed by
  \<^verbatim>\<open>time.sleep(max(1, retry_after))\<close>: the exception either of them raises, or the
  seconds slept.
\<close>

definition retry_after_pause :: "string option \<Rightarrow> error + int" where
  "retry_after_pause header =
     (case py_int (case header of None \<Rightarrow> ''1'' | Some v \<Rightarrow> v) of
        None \<Rightarrow> Inl ValueError
      | Some retry_after \<Rightarrow>
          (case time_sleep (max 1 retry_after) of
             Some e \<Rightarrow> Inl e
           | None \<Rightarrow> Inr (max 1 retry_after)))"

section \<open>The name fetcher: reading names, batches, one request\<close>

definition BATCH_LIMIT :: nat where
  "BATCH_LIMIT = 75"

text \<open>
  \<open>read_names\<close>: the file is its lines, or \<open>None\<close> when opening it raises
  \<^verbatim>\<open>OSError\<close>. Blank lines and \<^verbatim>\<open>#\<close> comments are skipped; a name is kept at
  its first occurrence.
\<close>

fun read_lines :: "string list \<Rightarrow> string list \<Rightarrow> string list" where
  "read_lines names [] = names"
| "read_lines names (line # rest) =
     (let raw = strip line in
      if raw = [] \<or> startswith raw ''#'' then read_lines names rest
      else if raw \<notin> set names then read_lines (names @ [raw]) rest
      else read_lines names rest)"

definition read_names :: "string list option \<Rightarrow> error + string list" where
  "read_names file =
     (case file of
        None \<Rightarrow> Inl (SystemExit 2)
      | Some lines \<Rightarrow> Inr (read_lines [] lines))"

text \<open>
  \<open>chunked\<close>: the slices \<^verbatim>\<open>seq[i : i + size]\<close> for \<^verbatim>\<open>i in range(0, len(seq), size)\<close>;
  \<^verbatim>\<open>range\<close> raises \<^verbatim>\<open>ValueError\<close> for a step of 0.
\<close>

function chunked_from :: "nat \<Rightarrow> 'a list \<Rightarrow> nat \<Rightarrow> 'a list list" where
  "chunked_from i seq sz =
     (if sz = 0 \<or> length seq \<le> i then []
      else take sz (drop i seq) # chunked_from (i + sz) seq sz)"
  by pat_completeness auto
termination
  by (relation "measure (\<lambda>(i, seq, sz). length seq - i)") auto

definition chunked :: "'a list \<Rightarrow> nat \<Rightarrow> error + 'a list list" where
  "chunked seq sz = (if sz = 0 then Inl ValueError else Inr (chunked_from 0 seq sz))"

text \<open>
  \<open>fetch_batch\<close>: the \<^verbatim>\<open>for attempt in range(retries + 1)\<close> loop, one equation per
  iteration. A 429 pauses and \<^verbatim>\<open>continue\<close>s, which moves to the next attempt of the
  same \<^verbatim>\<open>for\<close>; \<^verbatim>\<open>raise_for_status\<close> raises an \<^verbatim>\<open>HTTPError\<close>, which is a
  \<^verbatim>\<open>RequestException\<close> and lands in the same handler as a failed call. When the
  attempts are used up without a return or an exit, the line after the loop raises.
\<close>

fun fetch_batch_attempts ::
  "nat list \<Rightarrow> nat \<Rightarrow> string list \<Rightarrow> (string list, 'b) net \<Rightarrow> (error + 'b) \<times> (string list, 'b) net"
where
  "fetch_batch_attempts [] retries names w = (Inl RuntimeError, w)"
| "fetch_batch_attempts (attempt # later) retries names w =
     (case pending w of
        [] \<Rightarrow> (Inl ResponsesExhausted, w)
      | resp # rest \<Rightarrow>
          (case resp of
             RequestFailed \<Rightarrow>
               if attempt = retries
               then (Inl (SystemExit 3), w\<lparr>pending := rest, sent := sent w @ [names]\<rparr>)
               else fetch_batch_attempts later retries names
                      (w\<lparr>pending := rest, sent := sent w @ [names],
                         slept := slept w @ [BackoffPause attempt]\<rparr>)
           | Reply status_code retry_header body \<Rightarrow>
               if status_code = 429 then
                 (case retry_after_pause retry_header of
                    Inl e \<Rightarrow> (Inl e, w\<lparr>pending := rest, sent := sent w @ [names]\<rparr>)
                  | Inr secs \<Rightarrow>
                      fetch_batch_attempts later retries names
                        (w\<lparr>pending := rest, sent := sent w @ [names],
                           slept := slept w @ [RateLimitPause secs]\<rparr>))
               else if 400 \<le> status_code \<and> raises_for_status status_code then
                 (if attempt = retries
                  then (Inl (SystemExit 3), w\<lparr>pending := rest, sent := sent w @ [names]\<rparr>)
                  else fetch_batch_attempts later retries names
                         (w\<lparr>pending := rest, sent := sent w @ [names],
                            slept := slept w @ [BackoffPause attempt]\<rparr>))
               else (Inr body, w\<lparr>pending := rest, sent := sent w @ [names]\<rparr>)))"

definition fetch_batch_with ::
  "nat \<Rightarrow> string list \<Rightarrow> (string list, 'b) net \<Rightarrow> (error + 'b) \<times> (string list, 'b) net"
where
  "fetch_batch_with retries names w = fetch_batch_attempts [0..<retries + 1] retries names w"

definition fetch_batch ::
  "string list \<Rightarrow> (string list, 'b) net \<Rightarrow> (error + 'b) \<times> (string list, 'b) net"
where
  "fetch_batch names w = fetch_batch_with 4 names w"

section \<open>The name fetcher: the collection lookup\<close>

text \<open>
  A card is a JSON document of which the scripts read \<^verbatim>\<open>name\<close> and \<^verbatim>\<open>id\<close>
  (\<open>None\<close> when the key is absent); \<open>card_doc\<close> stands for the rest of the
  document. An entry of \<^verbatim>\<open>not_found\<close> is an object, read by
  \<^verbatim>\<open>item.get("name")\<close>, or anything else, read by \<^verbatim>\<open>str(item)\<close>. A collection
  response has the lists \<^verbatim>\<open>data\<close> and \<^verbatim>\<open>not_found\<close>, empty when absent.
\<close>

record card =
  card_name :: "string option"
  card_id :: "string option"
  card_doc :: string

datatype nf_item =
    NfDict "string option"
  | NfOther string

record collection =
  data :: "card list"
  not_found :: "nf_item list"

text \<open>
  A Python \<^verbatim>\<open>dict\<close> keeps its keys in insertion order, and assigning to a key it has
  keeps the key's place: an association list with distinct keys.
\<close>

fun dict_set :: "('k \<times> 'v) list \<Rightarrow> 'k \<Rightarrow> 'v \<Rightarrow> ('k \<times> 'v) list" where
  "dict_set [] k v = [(k, v)]"
| "dict_set ((k', v') # d) k v =
     (if k' = k then (k', v) # d else (k', v') # dict_set d k v)"

text \<open>
  A Python \<^verbatim>\<open>set\<close> that is only grown and tested for membership is a duplicate-free
  list; \<open>add_unseen s xs\<close> adds the elements of \<open>xs\<close> that \<open>s\<close> lacks. The model
  lists a set in insertion order where Python's order is unspecified; this shows only in
  the relative order of strings with equal \<open>lower\<close> after a sort.
\<close>

fun add_unseen :: "'a list \<Rightarrow> 'a list \<Rightarrow> 'a list" where
  "add_unseen s [] = s"
| "add_unseen s (x # xs) = add_unseen (if x \<in> set s then s else s @ [x]) xs"

text \<open>\<^verbatim>\<open>for card in data.get("data", []): ... results[card_name] = card\<close>\<close>

fun store_cards :: "card list \<Rightarrow> (string \<times> card) list \<Rightarrow> (string \<times> card) list" where
  "store_cards [] results = results"
| "store_cards (c # cs) results =
     (case card_name c of
        None \<Rightarrow> store_cards cs results
      | Some nm \<Rightarrow>
          if nm = [] then store_cards cs results
          else store_cards cs (dict_set results nm c))"

definition nf_name :: "nf_item \<Rightarrow> string option" where
  "nf_name item = (case item of NfDict n \<Rightarrow> n | NfOther s \<Rightarrow> Some s)"

text \<open>The loop that fills \<^verbatim>\<open>front_face_retry\<close>.\<close>

fun front_faces :: "string list \<Rightarrow> string list" where
  "front_faces [] = []"
| "front_faces (original # rest) =
     (if contains_sep original then
        (let front = strip (front_of original) in
         if front \<noteq> [] then front # front_faces rest else front_faces rest)
      else front_faces rest)"

text \<open>\<^verbatim>\<open>retry_set = sorted(set(front_face_retry), key=str.lower)\<close>\<close>

definition retry_set_of :: "string list \<Rightarrow> string list" where
  "retry_set_of front_face_retry = sort_key lower (add_unseen [] front_face_retry)"

text \<open>\<^verbatim>\<open>for sub in chunked(retry_set, BATCH_LIMIT): retry_data = fetch_batch(session, sub) ...\<close>\<close>

fun fetch_retries ::
  "string list list \<Rightarrow> (string \<times> card) list \<Rightarrow> (string list, collection) net
     \<Rightarrow> (error + (string \<times> card) list) \<times> (string list, collection) net"
where
  "fetch_retries [] results w = (Inr results, w)"
| "fetch_retries (sub # subs) results w =
     (case fetch_batch sub w of
        (Inl e, w') \<Rightarrow> (Inl e, w')
      | (Inr retry_data, w') \<Rightarrow> fetch_retries subs (store_cards (data retry_data) results) w')"

text \<open>
  The names of \<^verbatim>\<open>resolved_this_batch\<close> once the retry has run:
  \<^verbatim>\<open>any(original.lower() == r for r in results_lower)\<close>.
\<close>

definition resolved_by_retry :: "(string \<times> card) list \<Rightarrow> string \<Rightarrow> bool" where
  "resolved_by_retry results original = (lower original \<in> set (map (\<lambda>kv. lower (fst kv)) results))"

text \<open>
  The body of \<^verbatim>\<open>if nf:\<close>. It gives the results and the unresolved set after the
  batch, and \<^verbatim>\<open>resolved_this_batch\<close>, which stays empty when there was nothing to
  retry. A not-found object without a \<^verbatim>\<open>name\<close> puts \<^verbatim>\<open>None\<close> among the names, and
  \<^verbatim>\<open>" // " in original\<close> raises \<^verbatim>\<open>TypeError\<close> on it before anything is retried.
\<close>

definition handle_not_found ::
  "nf_item list \<Rightarrow> (string \<times> card) list \<Rightarrow> string list \<Rightarrow> (string list, collection) net
     \<Rightarrow> (error + ((string \<times> card) list \<times> string list \<times> string list)) \<times> (string list, collection) net"
where
  "handle_not_found nf results unresolved w =
     (case those (map nf_name nf) of
        None \<Rightarrow> (Inl TypeError, w)
      | Some nf_names \<Rightarrow>
          (let front_face_retry = front_faces nf_names in
           if front_face_retry \<noteq> [] then
             (case chunked (retry_set_of front_face_retry) BATCH_LIMIT of
                Inl e \<Rightarrow> (Inl e, w)
              | Inr subs \<Rightarrow>
                  (case fetch_retries subs results w of
                     (Inl e, w') \<Rightarrow> (Inl e, w')
                   | (Inr results', w') \<Rightarrow>
                       (let resolved_this_batch = filter (resolved_by_retry results') nf_names;
                            still_missing = filter (\<lambda>n. n \<notin> set resolved_this_batch) nf_names
                        in (Inr (results', add_unseen unresolved still_missing, resolved_this_batch), w'))))
           else (Inr (results, add_unseen unresolved nf_names, []), w)))"

fun fetch_batches ::
  "string list list \<Rightarrow> (string \<times> card) list \<Rightarrow> string list \<Rightarrow> (string list, collection) net
     \<Rightarrow> (error + ((string \<times> card) list \<times> string list)) \<times> (string list, collection) net"
where
  "fetch_batches [] results unresolved w = (Inr (results, unresolved), w)"
| "fetch_batches (batch # batches) results unresolved w =
     (case fetch_batch batch w of
        (Inl e, w1) \<Rightarrow> (Inl e, w1)
      | (Inr d, w1) \<Rightarrow>
          (let results1 = store_cards (data d) results in
           if not_found d = [] then fetch_batches batches results1 unresolved w1
           else
             (case handle_not_found (not_found d) results1 unresolved w1 of
                (Inl e, w2) \<Rightarrow> (Inl e, w2)
              | (Inr (results2, unresolved2, resolved_this_batch), w2) \<Rightarrow>
                  fetch_batches batches results2 unresolved2 w2)))"

definition fetch_all ::
  "string list \<Rightarrow> (string list, collection) net
     \<Rightarrow> (error + ((string \<times> card) list \<times> string list)) \<times> (string list, collection) net"
where
  "fetch_all names w =
     (case chunked names BATCH_LIMIT of
        Inl e \<Rightarrow> (Inl e, w)
      | Inr batches \<Rightarrow>
          (case fetch_batches batches [] [] w of
             (Inl e, w') \<Rightarrow> (Inl e, w')
           | (Inr (results, unresolved), w') \<Rightarrow> (Inr (results, sort_key lower unresolved), w')))"

section \<open>The name fetcher: main\<close>

datatype sort_order = SortInput | SortAlpha

text \<open>\<^verbatim>\<open>lower_map = {k.lower(): v for k, v in cards.items()}\<close>\<close>

definition lower_map_of :: "(string \<times> card) list \<Rightarrow> (string \<times> card) list" where
  "lower_map_of cards = foldl (\<lambda>m kv. dict_set m (lower (fst kv)) (snd kv)) [] cards"

definition resolve_input_name :: "(string \<times> card) list \<Rightarrow> string \<Rightarrow> card option" where
  "resolve_input_name lower_map inp =
     (let lk = lower inp in
      case map_of lower_map lk of
        Some c \<Rightarrow> Some c
      | None \<Rightarrow>
          if contains_sep lk then
            (let front = front_of lk in
             map_option snd (find (\<lambda>kv. startswith (fst kv) (front @ SEP)) lower_map))
          else None)"

text \<open>
  The reassembly loop. Every card of \<open>lower_map\<close> was stored under its non-empty
  name, so \<^verbatim>\<open>if card:\<close> is true exactly when \<open>resolve_input_name\<close> returned one.
  \<^verbatim>\<open>cid\<close> is true when the card has a non-empty \<^verbatim>\<open>id\<close>.
\<close>

record assembly =
  ordered_cards :: "card list"
  seen_ids :: "string set"
  mapped_names :: "string set"

definition truthy :: "string option \<Rightarrow> bool" where
  "truthy v = (case v of None \<Rightarrow> False | Some s \<Rightarrow> s \<noteq> [])"

fun assemble :: "(string \<times> card) list \<Rightarrow> string list \<Rightarrow> assembly \<Rightarrow> assembly" where
  "assemble lower_map [] a = a"
| "assemble lower_map (original # rest) a =
     (case resolve_input_name lower_map original of
        None \<Rightarrow> assemble lower_map rest a
      | Some c \<Rightarrow>
          (let a1 = a\<lparr>mapped_names := insert original (mapped_names a)\<rparr>;
               cid = card_id c
           in if truthy cid \<and> the cid \<in> seen_ids a1 then assemble lower_map rest a1
              else assemble lower_map rest
                     (a1\<lparr>seen_ids := (if truthy cid then insert (the cid) (seen_ids a1) else seen_ids a1),
                         ordered_cards := ordered_cards a1 @ [c]\<rparr>)))"

record report =
  written :: "card list"
  mapped :: "string set"
  ordering_unresolved :: "string list"
  combined_unresolved :: "string list"

definition reassemble ::
  "sort_order \<Rightarrow> string list \<Rightarrow> (string \<times> card) list \<Rightarrow> string list \<Rightarrow> report"
where
  "reassemble order names cards unresolved_names =
     (let lower_map = lower_map_of cards;
          input_sequence = (case order of SortInput \<Rightarrow> names
                            | SortAlpha \<Rightarrow> sort_key lower (map fst cards));
          a = assemble lower_map input_sequence
                \<lparr>ordered_cards = [], seen_ids = {}, mapped_names = {}\<rparr>;
          unmatched = filter (\<lambda>n. n \<notin> mapped_names a) names
      in \<lparr>written = ordered_cards a, mapped = mapped_names a,
           ordering_unresolved = unmatched,
           combined_unresolved = add_unseen [] (unresolved_names @ unmatched)\<rparr>)"

text \<open>
  \<open>main\<close> returns 0 on every path that returns; the model gives what it wrote and
  reported. With no names it returns before any request and writes nothing.
\<close>

definition main ::
  "string list option \<Rightarrow> sort_order \<Rightarrow> (string list, collection) net
     \<Rightarrow> (error + report) \<times> (string list, collection) net"
where
  "main file order w =
     (case read_names file of
        Inl e \<Rightarrow> (Inl e, w)
      | Inr names \<Rightarrow>
          if names = [] then
            (Inr \<lparr>written = [], mapped = {}, ordering_unresolved = [], combined_unresolved = []\<rparr>, w)
          else
            (case fetch_all names w of
               (Inl e, w') \<Rightarrow> (Inl e, w')
             | (Inr (cards, unresolved_names), w') \<Rightarrow>
                 (Inr (reassemble order names cards unresolved_names), w')))"

section \<open>The search script: streaming pages\<close>

text \<open>
  A search response has \<^verbatim>\<open>data\<close>, \<^verbatim>\<open>has_more\<close> and \<^verbatim>\<open>next_page\<close>
  (\<open>None\<close> when absent). A request is the URL and, for the first one, the query
  parameters.
\<close>

record page =
  page_data :: "card list"
  has_more :: bool
  next_page :: "string option"

datatype get_request = Get string "(string \<times> string) list option"

definition API_SEARCH :: string where
  "API_SEARCH = ''https://api.scryfall.com/cards/search''"

definition params :: "string \<Rightarrow> string \<Rightarrow> (string \<times> string) list" where
  "params query unique = [(''q'', query), (''unique'', unique), (''order'', ''name'')]"

definition request_for :: "string \<Rightarrow> (string \<times> string) list \<Rightarrow> get_request" where
  "request_for url ps = (if url = API_SEARCH then Get url (Some ps) else Get url None)"

text \<open>
  The \<^verbatim>\<open>for attempt in range(5)\<close> loop of one page. Its value is the binding of
  \<^verbatim>\<open>page\<close> after the loop: the decoded body after a \<^verbatim>\<open>break\<close>, and the
  binding from before the loop (\<open>None\<close>: never assigned) when the attempts run out
  without one.
\<close>

fun fetch_page_attempts ::
  "nat list \<Rightarrow> get_request \<Rightarrow> page option \<Rightarrow> (get_request, page) net
     \<Rightarrow> (error + page option) \<times> (get_request, page) net"
where
  "fetch_page_attempts [] req pg w = (Inr pg, w)"
| "fetch_page_attempts (attempt # later) req pg w =
     (case pending w of
        [] \<Rightarrow> (Inl ResponsesExhausted, w)
      | resp # rest \<Rightarrow>
          (case resp of
             RequestFailed \<Rightarrow>
               if attempt = 4
               then (Inl RequestException, w\<lparr>pending := rest, sent := sent w @ [req]\<rparr>)
               else fetch_page_attempts later req pg
                      (w\<lparr>pending := rest, sent := sent w @ [req],
                         slept := slept w @ [BackoffPause attempt]\<rparr>)
           | Reply status_code retry_header body \<Rightarrow>
               if status_code = 429 then
                 (case retry_after_pause retry_header of
                    Inl e \<Rightarrow> (Inl e, w\<lparr>pending := rest, sent := sent w @ [req]\<rparr>)
                  | Inr secs \<Rightarrow>
                      fetch_page_attempts later req pg
                        (w\<lparr>pending := rest, sent := sent w @ [req],
                           slept := slept w @ [RateLimitPause secs]\<rparr>))
               else if 400 \<le> status_code \<and> raises_for_status status_code then
                 (if attempt = 4
                  then (Inl RequestException, w\<lparr>pending := rest, sent := sent w @ [req]\<rparr>)
                  else fetch_page_attempts later req pg
                         (w\<lparr>pending := rest, sent := sent w @ [req],
                            slept := slept w @ [BackoffPause attempt]\<rparr>))
               else (Inr (Some body), w\<lparr>pending := rest, sent := sent w @ [req]\<rparr>)))"

lemma fetch_page_attempts_pending_le:
  "fetch_page_attempts as req pg w = (r, w') \<Longrightarrow> length (pending w') \<le> length (pending w)"
proof (induction as arbitrary: w)
  case Nil
  then show ?case by simp
next
  case (Cons a as)
  show ?case
  proof (cases "pending w")
    case Nil
    with Cons.prems show ?thesis by simp
  next
    case (Cons resp rest)
    with Cons.prems Cons.IH show ?thesis
      by (fastforce split: response.splits if_splits sum.splits)
  qed
qed

lemma fetch_page_attempts_consumes:
  "fetch_page_attempts (a # as) req pg w = (Inr r, w') \<Longrightarrow> length (pending w') < length (pending w)"
proof (cases "pending w")
  case Nil
  then show "fetch_page_attempts (a # as) req pg w = (Inr r, w') \<Longrightarrow> ?thesis" by simp
next
  case (Cons resp rest)
  then show "fetch_page_attempts (a # as) req pg w = (Inr r, w') \<Longrightarrow> ?thesis"
    by (fastforce split: response.splits if_splits sum.splits
          dest: fetch_page_attempts_pending_le)
qed

lemma fetch_page_consumes:
  assumes "(Inr r, w') = fetch_page_attempts [0..<5] req pg w"
  shows "length (pending w') < length (pending w)"
proof -
  have "[0..<5] = 0 # [Suc 0..<5]"
    by (simp add: upt_conv_Cons)
  with assms have "fetch_page_attempts (0 # [Suc 0..<5]) req pg w = (Inr r, w')"
    by simp
  then show ?thesis
    by (rule fetch_page_attempts_consumes)
qed

text \<open>
  The generator, run to its end: the cards it yielded, in order, and the exception that
  ended it, if one did. \<^verbatim>\<open>while url:\<close> stops on \<open>None\<close> and on the empty string.
\<close>

function stream_from ::
  "string option \<Rightarrow> page option \<Rightarrow> (string \<times> string) list \<Rightarrow> card list \<Rightarrow> (get_request, page) net
     \<Rightarrow> (error option \<times> card list) \<times> (get_request, page) net"
where
  "stream_from url pg ps yielded w =
     (if \<not> truthy url then ((None, yielded), w)
      else
        (case fetch_page_attempts [0..<5] (request_for (the url) ps) pg w of
           (Inl e, w') \<Rightarrow> ((Some e, yielded), w')
         | (Inr None, w') \<Rightarrow> ((Some UnboundLocalError, yielded), w')
         | (Inr (Some p), w') \<Rightarrow>
             stream_from (if has_more p then next_page p else None) (Some p) ps
               (yielded @ page_data p) w'))"
  by pat_completeness auto
termination
  apply (relation "measure (\<lambda>(url, pg, ps, yielded, w). length (pending w))")
   apply simp
  apply (simp del: fetch_page_attempts.simps)
  apply (erule fetch_page_consumes)
  done

declare stream_from.simps [simp del]

definition stream_cards ::
  "string \<Rightarrow> string \<Rightarrow> (get_request, page) net
     \<Rightarrow> (error option \<times> card list) \<times> (get_request, page) net"
where
  "stream_cards query unique w = stream_from (Some API_SEARCH) None (params query unique) [] w"

section \<open>Retry budget of one batch request\<close>

lemma upt_0_5: "[0..<5] = [0, 1, 2, 3, 4]"
  by (simp add: upt_rec)

lemma stream_from_stop: "\<not> truthy url \<Longrightarrow> stream_from url pg ps yielded w = ((None, yielded), w)"
  by (subst stream_from.simps) simp

lemma request_for_search: "request_for API_SEARCH ps = Get API_SEARCH (Some ps)"
  by (simp add: request_for_def)

lemma request_for_next: "u \<noteq> API_SEARCH \<Longrightarrow> request_for u ps = Get u None"
  by (simp add: request_for_def)

lemma API_SEARCH_nonempty: "API_SEARCH \<noteq> []"
  by (simp add: API_SEARCH_def)

text \<open>
  C3. With the default bound (\<^verbatim>\<open>retries = 4\<close>), four failed calls followed by a 200
  response return the decoded body after exactly five requests and the four backoff
  pauses of attempts 0..3; five failed calls end the process with \<^verbatim>\<open>sys.exit(3)\<close>
  after the fifth request, and 3 is not the status 2 with which \<open>read_names\<close> ends
  the process on an unreadable input file.
\<close>

theorem fetch_batch_retry_boundary:
  "fetch_batch names (w\<lparr>pending := replicate 4 RequestFailed @ Reply 200 h body # rest\<rparr>)
     = (Inr body, w\<lparr>pending := rest, sent := sent w @ replicate 5 names,
                     slept := slept w @ map BackoffPause [0, 1, 2, 3]\<rparr>)
   \<and> fetch_batch names (w\<lparr>pending := replicate 5 RequestFailed @ rest\<rparr>)
     = (Inl (SystemExit 3), w\<lparr>pending := rest, sent := sent w @ replicate 5 names,
                               slept := slept w @ map BackoffPause [0, 1, 2, 3]\<rparr>)
   \<and> read_names None = Inl (SystemExit 2)
   \<and> SystemExit 3 \<noteq> SystemExit 2"
  by (simp add: fetch_batch_def fetch_batch_with_def upt_0_5 numeral_eq_Suc
        raises_for_status_def read_names_def)

section \<open>Rate limiting\<close>

lemma py_int_1: "py_int ''1'' = Some 1"
  by code_simp

lemma retry_after_default: "retry_after_pause None = Inr 1"
  by (simp add: retry_after_pause_def py_int_1 time_sleep_def)





text \<open>
  C2. Checked at four and at five 429 responses followed by a 200. Every 429 takes one
  iteration of the \<^verbatim>\<open>for attempt\<close> loop: four are survived, and the fifth leaves
  \<open>fetch_batch\<close> at the \<^verbatim>\<open>raise RuntimeError("Unreachable")\<close> after the loop, and
  leaves \<open>stream_cards\<close> reading \<^verbatim>\<open>page\<close>, which was never assigned; the 200
  response is never asked for.
\<close>

theorem rate_limits_use_up_attempts:
  "fst (fetch_batch names (w\<lparr>pending := replicate 4 (Reply 429 None b) @ Reply 200 None body # rest\<rparr>))
     = Inr body
   \<and> fetch_batch names (w\<lparr>pending := replicate 5 (Reply 429 None b) @ Reply 200 None body # rest\<rparr>)
     = (Inl RuntimeError,
        w\<lparr>pending := Reply 200 None body # rest, sent := sent w @ replicate 5 names,
          slept := slept w @ replicate 5 (RateLimitPause 1)\<rparr>)
   \<and> fst (stream_cards q u (w'\<lparr>pending := replicate 5 (Reply 429 None p) @ Reply 200 None p' # rest'\<rparr>))
     = (Some UnboundLocalError, [])"
  by (simp add: fetch_batch_def fetch_batch_with_def stream_cards_def stream_from.simps upt_0_5
        numeral_eq_Suc truthy_def API_SEARCH_def retry_after_default)











section \<open>Pagination\<close>

lemma stream_from_page:
  assumes "u \<noteq> []" and "status_code \<noteq> 429" and "status_code < 400"
  shows "stream_from (Some u) pg ps yielded (w\<lparr>pending := Reply status_code h p # rest\<rparr>)
         = stream_from (if has_more p then next_page p else None) (Some p) ps (yielded @ page_data p)
             (w\<lparr>pending := rest, sent := sent w @ [request_for u ps]\<rparr>)"
  using assms by (subst stream_from.simps) (simp add: truthy_def upt_0_5)

lemma fetch_page_five_429:
  assumes "retry_after_pause h0 = Inr s0" "retry_after_pause h1 = Inr s1"
    "retry_after_pause h2 = Inr s2" "retry_after_pause h3 = Inr s3" "retry_after_pause h4 = Inr s4"
  shows "fetch_page_attempts [0..<5] req pg
           \<lparr>pending = Reply 429 h0 b0 # Reply 429 h1 b1 # Reply 429 h2 b2 # Reply 429 h3 b3
                           # Reply 429 h4 b4 # rest, sent = sn, slept = sl\<rparr>
         = (Inr pg, \<lparr>pending = rest, sent = sn @ replicate 5 req,
                       slept = sl @ map RateLimitPause [s0, s1, s2, s3, s4]\<rparr>)"
  using assms by (simp add: upt_0_5 numeral_eq_Suc)

lemma stream_from_yielded_grows:
  "\<exists>more. snd (fst (stream_from url pg ps yielded w)) = yielded @ more"
proof (induction url pg ps yielded w rule: stream_from.induct)
  case (1 url pg ps yielded w)
  show ?case
  proof (cases "truthy url")
    case False
    then show ?thesis by (simp add: stream_from_stop)
  next
    case True
    obtain r w' where f: "fetch_page_attempts [0..<5] (request_for (the url) ps) pg w = (r, w')"
      by (cases "fetch_page_attempts [0..<5] (request_for (the url) ps) pg w")
    show ?thesis
    proof (cases r)
      case (Inl e)
      with True f show ?thesis by (subst stream_from.simps) simp
    next
      case (Inr po)
      show ?thesis
      proof (cases po)
        case None
        with True f Inr show ?thesis by (subst stream_from.simps) simp
      next
        case (Some p)
        from True have nn: "\<not> \<not> truthy url" by simp
        from "1.IH"[OF nn f[symmetric] Inr Some]
        obtain more where "snd (fst (stream_from (if has_more p then next_page p else None) (Some p) ps
             (yielded @ page_data p) w')) = (yielded @ page_data p) @ more"
          by blast
        with True f Inr Some show ?thesis by (subst stream_from.simps) simp
      qed
    qed
  qed
qed

lemma fetch_page_attempts_sent:
  "\<exists>k. sent (snd (fetch_page_attempts as req pg w)) = sent w @ replicate k req"
proof (induction as arbitrary: w)
  case Nil
  show ?case by (simp add: exI [of _ 0])
next
  case (Cons a as)
  show ?case
  proof (cases "pending w")
    case Nil
    then show ?thesis by (simp add: exI [of _ 0])
  next
    case (Cons resp rest)
    have one: "\<exists>k. sent (w\<lparr>pending := rest, sent := sent w @ [req]\<rparr>) = sent w @ replicate k req"
      by (simp add: exI [of _ 1])
    have more: "\<exists>k. sent (snd (fetch_page_attempts as req pg (w\<lparr>pending := rest, sent := sent w @ [req], slept := sl\<rparr>)))
                  = sent w @ replicate k req" for sl
    proof -
      from Cons.IH [of "w\<lparr>pending := rest, sent := sent w @ [req], slept := sl\<rparr>"]
      obtain k where "sent (snd (fetch_page_attempts as req pg (w\<lparr>pending := rest, sent := sent w @ [req], slept := sl\<rparr>)))
                  = (sent w @ [req]) @ replicate k req"
        by auto
      then have "sent (snd (fetch_page_attempts as req pg (w\<lparr>pending := rest, sent := sent w @ [req], slept := sl\<rparr>)))
                  = sent w @ replicate (Suc k) req"
        by simp
      then show ?thesis by blast
    qed
    from Cons one more show ?thesis
      by (auto split: response.splits sum.splits)
  qed
qed

text \<open>
  C10. Five consecutive 429 responses (each with a \<^verbatim>\<open>Retry-After\<close> header that is absent
  or an integer that \<^verbatim>\<open>time.sleep\<close> accepts) use up the five attempts of one page without a \<^verbatim>\<open>break\<close>, and the
  loop ends with \<^verbatim>\<open>page\<close> as it was before. On the first page \<^verbatim>\<open>page\<close> is then
  read before any assignment: the generator ends with \<^verbatim>\<open>UnboundLocalError\<close> (a
  \<^verbatim>\<open>NameError\<close>) and has yielded nothing. On a later page the previous page is read
  again: its cards are yielded a second time, and the same URL is the next to be fetched.
\<close>

theorem stream_cards_page_unassigned:
  assumes "retry_after_pause h0 = Inr s0" and "retry_after_pause h1 = Inr s1"
    and "retry_after_pause h2 = Inr s2" and "retry_after_pause h3 = Inr s3"
    and "retry_after_pause h4 = Inr s4"
    and "limited = [Reply 429 h0 b, Reply 429 h1 b, Reply 429 h2 b, Reply 429 h3 b, Reply 429 h4 b]"
    and "has_more p" and "next_page p = Some u1" and "u1 \<noteq> []"
  shows
    "fetch_page_attempts [0..<5] req pg \<lparr>pending = limited @ rest, sent = sn, slept = sl\<rparr>
       = (Inr pg, \<lparr>pending = rest, sent = sn @ replicate 5 req,
                   slept = sl @ map RateLimitPause [s0, s1, s2, s3, s4]\<rparr>)
     \<and> stream_cards q unique \<lparr>pending = limited @ rest, sent = sn, slept = sl\<rparr>
       = ((Some UnboundLocalError, []),
          \<lparr>pending = rest,
            sent = sn @ replicate 5 (Get API_SEARCH (Some (params q unique))),
            slept = sl @ map RateLimitPause [s0, s1, s2, s3, s4]\<rparr>)
     \<and> stream_cards q unique \<lparr>pending = Reply 200 h p # limited @ rest, sent = sn, slept = sl\<rparr>
       = stream_from (Some u1) (Some p) (params q unique) (page_data p @ page_data p)
           \<lparr>pending = rest,
             sent = sn @ Get API_SEARCH (Some (params q unique))
                        # replicate 5 (request_for u1 (params q unique)),
             slept = sl @ map RateLimitPause [s0, s1, s2, s3, s4]\<rparr>
     \<and> (\<exists>more. snd (fst (stream_cards q unique
                            \<lparr>pending = Reply 200 h p # limited @ rest, sent = sn, slept = sl\<rparr>))
                 = page_data p @ page_data p @ more)"
proof -
  have fall: "fetch_page_attempts [0..<5] r g \<lparr>pending = limited @ rest, sent = sn', slept = sl\<rparr>
       = (Inr g, \<lparr>pending = rest, sent = sn' @ replicate 5 r,
                     slept = sl @ map RateLimitPause [s0, s1, s2, s3, s4]\<rparr>)"
    for r g sn'
    using assms(1-6) fetch_page_five_429 [where req = r and pg = g and sn = sn' and sl = sl
        and rest = rest and ?b0.0 = b and ?b1.0 = b and ?b2.0 = b and ?b3.0 = b and ?b4.0 = b]
    by simp
  have first: "stream_cards q unique \<lparr>pending = limited @ rest, sent = sn, slept = sl\<rparr>
       = ((Some UnboundLocalError, []),
          \<lparr>pending = rest,
            sent = sn @ replicate 5 (Get API_SEARCH (Some (params q unique))),
            slept = sl @ map RateLimitPause [s0, s1, s2, s3, s4]\<rparr>)"
    unfolding stream_cards_def
    by (subst stream_from.simps)
       (simp add: fall truthy_def API_SEARCH_nonempty request_for_search del: replicate.simps)
  have "stream_cards q unique \<lparr>pending = Reply 200 h p # limited @ rest, sent = sn, slept = sl\<rparr>
       = stream_from (Some u1) (Some p) (params q unique) (page_data p)
           \<lparr>pending = limited @ rest, sent = sn @ [Get API_SEARCH (Some (params q unique))], slept = sl\<rparr>"
    unfolding stream_cards_def
    using assms(7,8) stream_from_page [where u = API_SEARCH and status_code = 200 and pg = None
        and ps = "params q unique" and yielded = "[]" and h = h and p = p
        and w = "\<lparr>pending = [], sent = sn, slept = sl\<rparr>" and rest = "limited @ rest"]
    by (simp add: API_SEARCH_nonempty request_for_search)
  also have "\<dots> = stream_from (Some u1) (Some p) (params q unique) (page_data p @ page_data p)
           \<lparr>pending = rest,
             sent = sn @ Get API_SEARCH (Some (params q unique))
                        # replicate 5 (request_for u1 (params q unique)),
             slept = sl @ map RateLimitPause [s0, s1, s2, s3, s4]\<rparr>"
    using assms(7-9)
    by (subst stream_from.simps) (simp add: truthy_def fall del: replicate.simps)
  finally have again: "stream_cards q unique \<lparr>pending = Reply 200 h p # limited @ rest, sent = sn, slept = sl\<rparr>
       = stream_from (Some u1) (Some p) (params q unique) (page_data p @ page_data p)
           \<lparr>pending = rest,
             sent = sn @ Get API_SEARCH (Some (params q unique))
                        # replicate 5 (request_for u1 (params q unique)),
             slept = sl @ map RateLimitPause [s0, s1, s2, s3, s4]\<rparr>" .
  have "\<exists>more. snd (fst (stream_cards q unique
                            \<lparr>pending = Reply 200 h p # limited @ rest, sent = sn, slept = sl\<rparr>))
                 = page_data p @ page_data p @ more"
    unfolding again
    using stream_from_yielded_grows [where url = "Some u1" and pg = "Some p"
        and ps = "params q unique" and yielded = "page_data p @ page_data p"]
    by simp
  with fall first again show ?thesis
    by blast
qed

theorem stream_cards_page_unassigned_witness:
  "retry_after_pause None = Inr 1
   \<and> stream_cards ''t:elf'' ''cards''
        \<lparr>pending = replicate 5 (Reply 429 None \<lparr>page_data = [], has_more = False, next_page = None\<rparr>),
          sent = [], slept = []\<rparr>
       = ((Some UnboundLocalError, []),
          \<lparr>pending = [],
            sent = replicate 5 (Get API_SEARCH (Some (params ''t:elf'' ''cards''))),
            slept = replicate 5 (RateLimitPause 1)\<rparr>)"
  using stream_cards_page_unassigned [OF retry_after_default retry_after_default
      retry_after_default retry_after_default retry_after_default refl,
      where p = "\<lparr>page_data = [], has_more = True, next_page = Some ''https://api.scryfall.com/cards/search?page=2''\<rparr>"
        and ?u1.0 = "''https://api.scryfall.com/cards/search?page=2''"
        and b = "\<lparr>page_data = [], has_more = False, next_page = None\<rparr>" and rest = "[]"
        and q = "''t:elf''" and unique = "''cards''" and sn = "[]" and sl = "[]"]
  by (simp add: retry_after_default numeral_eq_Suc)

text \<open>
  C6, as the code has it. Every request made for a URL is that URL verbatim, with the
  query parameters attached exactly when the URL is the search endpoint itself. A page
  that arrives with status 200 is yielded, and then: when
  \<^verbatim>\<open>has_more\<close> is true and \<^verbatim>\<open>next_page\<close> is a non-empty URL, that URL is fetched
  next, without parameters unless it equals the search endpoint itself (for that URL the
  code attaches the query parameters again); when \<^verbatim>\<open>has_more\<close> is false, or
  \<^verbatim>\<open>next_page\<close> is absent or empty, the sequence ends and nothing more is fetched. Three
  pages with \<^verbatim>\<open>has_more\<close> true, true, false, whose \<^verbatim>\<open>next_page\<close> URLs are non-empty
  and differ from the search endpoint, give the cards of all three in order with exactly
  three requests; the responses after the third stay unread.
\<close>

theorem stream_cards_pagination:
  assumes "has_more p1" and "next_page p1 = Some u1" and "u1 \<noteq> []" and "u1 \<noteq> API_SEARCH"
    and "has_more p2" and "next_page p2 = Some u2" and "u2 \<noteq> []" and "u2 \<noteq> API_SEARCH"
    and "\<not> has_more p3"
  shows
    "(u \<noteq> [] \<longrightarrow>
        stream_from (Some u) pg ps yielded \<lparr>pending = Reply 200 h p # later, sent = sn', slept = sl'\<rparr>
        = stream_from (if has_more p then next_page p else None) (Some p) ps (yielded @ page_data p)
            \<lparr>pending = later,
              sent = sn' @ [if u = API_SEARCH then Get u (Some ps) else Get u None],
              slept = sl'\<rparr>)
     \<and> (\<exists>k. sent (snd (fetch_page_attempts attempts (request_for u ps) pg w))
              = sent w @ replicate k (if u = API_SEARCH then Get u (Some ps) else Get u None))
     \<and> stream_from None pg ps yielded w = ((None, yielded), w)
     \<and> stream_from (Some []) pg ps yielded w = ((None, yielded), w)
     \<and> stream_cards q unique
          \<lparr>pending = Reply 200 h1 p1 # Reply 200 h2 p2 # Reply 200 h3 p3 # rest, sent = sn, slept = sl\<rparr>
        = ((None, page_data p1 @ page_data p2 @ page_data p3),
           \<lparr>pending = rest,
             sent = sn @ [Get API_SEARCH (Some (params q unique)), Get u1 None, Get u2 None],
             slept = sl\<rparr>)"
proof -
  have step: "stream_from (Some v) g ps' ys \<lparr>pending = Reply 200 hh pp # rs, sent = s1, slept = s2\<rparr>
        = stream_from (if has_more pp then next_page pp else None) (Some pp) ps' (ys @ page_data pp)
            \<lparr>pending = rs, sent = s1 @ [request_for v ps'], slept = s2\<rparr>"
    if "v \<noteq> []" for v g ps' ys hh pp rs s1 s2
    using that stream_from_page [where u = v and status_code = 200 and pg = g and ps = ps'
        and yielded = ys and h = hh and p = pp and rest = rs
        and w = "\<lparr>pending = [], sent = s1, slept = s2\<rparr>"]
    by simp
  have general: "u \<noteq> [] \<longrightarrow>
        stream_from (Some u) pg ps yielded \<lparr>pending = Reply 200 h p # later, sent = sn', slept = sl'\<rparr>
        = stream_from (if has_more p then next_page p else None) (Some p) ps (yielded @ page_data p)
            \<lparr>pending = later,
              sent = sn' @ [if u = API_SEARCH then Get u (Some ps) else Get u None],
              slept = sl'\<rparr>"
    by (simp add: step request_for_def)
  have requests: "\<exists>k. sent (snd (fetch_page_attempts attempts (request_for u ps) pg w))
              = sent w @ replicate k (if u = API_SEARCH then Get u (Some ps) else Get u None)"
    using fetch_page_attempts_sent [of attempts "request_for u ps" pg w]
    by (simp add: request_for_def)
  have stop: "stream_from None pg ps yielded w = ((None, yielded), w)"
    "stream_from (Some []) pg ps yielded w = ((None, yielded), w)"
    by (simp_all add: stream_from_stop truthy_def)
  have "stream_cards q unique
          \<lparr>pending = Reply 200 h1 p1 # Reply 200 h2 p2 # Reply 200 h3 p3 # rest, sent = sn, slept = sl\<rparr>
        = stream_from (Some u1) (Some p1) (params q unique) (page_data p1)
            \<lparr>pending = Reply 200 h2 p2 # Reply 200 h3 p3 # rest,
              sent = sn @ [Get API_SEARCH (Some (params q unique))], slept = sl\<rparr>"
    unfolding stream_cards_def using assms(1,2)
    by (simp add: step API_SEARCH_nonempty request_for_search)
  also have "\<dots> = stream_from (Some u2) (Some p2) (params q unique) (page_data p1 @ page_data p2)
            \<lparr>pending = Reply 200 h3 p3 # rest,
              sent = sn @ [Get API_SEARCH (Some (params q unique)), Get u1 None], slept = sl\<rparr>"
    using assms(3-6) by (simp add: step request_for_next)
  also have "\<dots> = stream_from None (Some p3) (params q unique) (page_data p1 @ page_data p2 @ page_data p3)
            \<lparr>pending = rest,
              sent = sn @ [Get API_SEARCH (Some (params q unique)), Get u1 None, Get u2 None], slept = sl\<rparr>"
    using assms(7-9) by (simp add: step request_for_next)
  also have "\<dots> = ((None, page_data p1 @ page_data p2 @ page_data p3),
           \<lparr>pending = rest,
             sent = sn @ [Get API_SEARCH (Some (params q unique)), Get u1 None, Get u2 None],
             slept = sl\<rparr>)"
    by (simp add: stream_from_stop truthy_def)
  finally show ?thesis
    using general requests stop by blast
qed

theorem stream_cards_pagination_witness:
  "stream_cards ''t:elf'' ''cards''
     \<lparr>pending =
        [Reply 200 None \<lparr>page_data = [\<lparr>card_name = Some ''Elvish Mystic'', card_id = Some ''e1'', card_doc = []\<rparr>],
                         has_more = True, next_page = Some ''https://api.scryfall.com/cards/search?page=2''\<rparr>,
         Reply 200 None \<lparr>page_data = [\<lparr>card_name = Some ''Llanowar Elves'', card_id = Some ''e2'', card_doc = []\<rparr>],
                         has_more = True, next_page = Some ''https://api.scryfall.com/cards/search?page=3''\<rparr>,
         Reply 200 None \<lparr>page_data = [\<lparr>card_name = Some ''Wood Elves'', card_id = Some ''e3'', card_doc = []\<rparr>],
                         has_more = False, next_page = None\<rparr>,
         RequestFailed],
       sent = [], slept = []\<rparr>
   = ((None, [\<lparr>card_name = Some ''Elvish Mystic'', card_id = Some ''e1'', card_doc = []\<rparr>,
              \<lparr>card_name = Some ''Llanowar Elves'', card_id = Some ''e2'', card_doc = []\<rparr>,
              \<lparr>card_name = Some ''Wood Elves'', card_id = Some ''e3'', card_doc = []\<rparr>]),
      \<lparr>pending = [RequestFailed],
        sent = [Get API_SEARCH (Some (params ''t:elf'' ''cards'')),
                Get ''https://api.scryfall.com/cards/search?page=2'' None,
                Get ''https://api.scryfall.com/cards/search?page=3'' None],
        slept = []\<rparr>)"
  using stream_cards_pagination [where
      ?p1.0 = "\<lparr>page_data = [\<lparr>card_name = Some ''Elvish Mystic'', card_id = Some ''e1'', card_doc = []\<rparr>],
                has_more = True, next_page = Some ''https://api.scryfall.com/cards/search?page=2''\<rparr>"
      and ?u1.0 = "''https://api.scryfall.com/cards/search?page=2''"
      and ?p2.0 = "\<lparr>page_data = [\<lparr>card_name = Some ''Llanowar Elves'', card_id = Some ''e2'', card_doc = []\<rparr>],
                has_more = True, next_page = Some ''https://api.scryfall.com/cards/search?page=3''\<rparr>"
      and ?u2.0 = "''https://api.scryfall.com/cards/search?page=3''"
      and ?p3.0 = "\<lparr>page_data = [\<lparr>card_name = Some ''Wood Elves'', card_id = Some ''e3'', card_doc = []\<rparr>],
                has_more = False, next_page = None\<rparr>"
      and ?h1.0 = None and ?h2.0 = None and ?h3.0 = None and rest = "[RequestFailed]"
      and q = "''t:elf''" and unique = "''cards''" and sn = "[]" and sl = "[]"]
  by (simp add: API_SEARCH_def)

text \<open>
  The claim of C6 as first stated fails when \<^verbatim>\<open>next_page\<close> is the search endpoint's own
  URL: the second request carries the query parameters again.
\<close>

theorem next_page_search_endpoint_counterexample:
  "sent (snd (stream_cards ''t:elf'' ''cards''
     (script [Reply 200 None \<lparr>page_data = [], has_more = True, next_page = Some API_SEARCH\<rparr>,
              Reply 200 None \<lparr>page_data = [], has_more = False, next_page = None\<rparr>])))
   = [Get API_SEARCH (Some (params ''t:elf'' ''cards'')),
      Get API_SEARCH (Some (params ''t:elf'' ''cards''))]"
  by (simp add: stream_cards_def script_def stream_from.simps truthy_def upt_0_5
        API_SEARCH_nonempty request_for_search)

section \<open>Batches\<close>

declare chunked_from.simps [simp del]

lemma chunked_from_concat: "0 < sz \<Longrightarrow> concat (chunked_from i seq sz) = drop i seq"
proof (induction i seq sz rule: chunked_from.induct)
  case (1 i seq sz)
  show ?case
  proof (cases "length seq \<le> i")
    case True
    then show ?thesis by (subst chunked_from.simps) simp
  next
    case False
    with 1 have "concat (chunked_from (i + sz) seq sz) = drop (i + sz) seq"
      by simp
    moreover have "take sz (drop i seq) @ drop (i + sz) seq = drop i seq"
      by (metis add.commute append_take_drop_id drop_drop)
    ultimately show ?thesis
      using False 1(2) by (subst chunked_from.simps) simp
  qed
qed

lemma chunked_from_length:
  "0 < sz \<Longrightarrow> length (chunked_from i seq sz) = (length seq - i + (sz - 1)) div sz"
proof (induction i seq sz rule: chunked_from.induct)
  case (1 i seq sz)
  show ?case
  proof (cases "length seq \<le> i")
    case True
    with 1(2) show ?thesis by (subst chunked_from.simps) simp
  next
    case False
    with 1 have ih: "length (chunked_from (i + sz) seq sz) = (length seq - (i + sz) + (sz - 1)) div sz"
      by simp
    have "Suc ((length seq - (i + sz) + (sz - 1)) div sz) = (length seq - i + (sz - 1)) div sz"
    proof (cases "length seq - i < sz")
      case True
      with False 1(2) have "(length seq - i + (sz - 1)) div sz = 1"
        by (intro div_nat_eqI) auto
      moreover from True have "length seq - (i + sz) = 0" by simp
      ultimately show ?thesis using 1(2) by simp
    next
      case False
      then have "length seq - i + (sz - 1) = (length seq - (i + sz) + (sz - 1)) + sz"
        by simp
      then show ?thesis
        using 1(2) by (metis div_add_self2 less_numeral_extra(3) Suc_eq_plus1)
    qed
    with ih show ?thesis
      using False 1(2) by (subst chunked_from.simps) simp
  qed
qed

lemma chunked_from_sizes:
  "c \<in> set (chunked_from i seq sz) \<Longrightarrow> c \<noteq> [] \<and> length c \<le> sz"
proof (induction i seq sz rule: chunked_from.induct)
  case (1 i seq sz)
  show ?case
  proof (cases "sz = 0 \<or> length seq \<le> i")
    case True
    with 1(2) show ?thesis by (subst (asm) chunked_from.simps) simp
  next
    case False
    from 1(2) have "c \<in> set (take sz (drop i seq) # chunked_from (i + sz) seq sz)"
      using False by (subst (asm) chunked_from.simps) simp
    then show ?thesis
      using False 1(1) by auto
  qed
qed


lemma chunked_limit: "chunked seq BATCH_LIMIT = Inr (chunked_from 0 seq 75)"
  by (simp add: chunked_def BATCH_LIMIT_def)

lemma fetch_batch_ok:
  "fetch_batch names \<lparr>pending = Reply 200 h body # rest, sent = sn, slept = sl\<rparr>
   = (Inr body, \<lparr>pending = rest, sent = sn @ [names], slept = sl\<rparr>)"
  by (simp add: fetch_batch_def fetch_batch_with_def upt_0_5)

lemma fetch_batches_found:
  "length bodies = length batches \<Longrightarrow> \<forall>d \<in> set bodies. not_found d = [] \<Longrightarrow>
   fetch_batches batches results unresolved
     \<lparr>pending = map (Reply 200 None) bodies @ rest, sent = sn, slept = sl\<rparr>
   = (Inr (foldl (\<lambda>r d. store_cards (data d) r) results bodies, unresolved),
      \<lparr>pending = rest, sent = sn @ batches, slept = sl\<rparr>)"
proof (induction batches arbitrary: bodies results sn)
  case Nil
  then show ?case by simp
next
  case (Cons batch batches)
  then obtain d ds where bodies: "bodies = d # ds"
    by (cases bodies) auto
  with Cons.prems have "length ds = length batches" and "\<forall>d \<in> set ds. not_found d = []"
    and "not_found d = []"
    by auto
  with Cons.IH [of ds "store_cards (data d) results" "sn @ [batch]"] show ?case
    by (simp add: bodies fetch_batch_ok)
qed

text \<open>
  C8. \<open>fetch_all\<close> walks \<^verbatim>\<open>chunked(names, BATCH_LIMIT)\<close>: \<open>ceil(n / 75)\<close> batches,
  each non-empty and of at most 75 names, whose concatenation is the input; one batch for
  75 names, two (of 75 and 1) for 76. One primary request goes out per batch, in order:
  when every request is answered at once with a 200 that reports nothing not found, the
  requests sent are exactly the batches.
\<close>

theorem primary_requests_are_batches_of_75:
  "\<exists>batches. chunked names BATCH_LIMIT = Inr batches
      \<and> length batches = (length names + 74) div 75
      \<and> concat batches = names
      \<and> (\<forall>b \<in> set batches. b \<noteq> [] \<and> length b \<le> 75)
      \<and> (length names = 75 \<longrightarrow> batches = [names])
      \<and> (length names = 76 \<longrightarrow> batches = [take 75 names, drop 75 names]
            \<and> map length batches = [75, 1])
      \<and> (length bodies = length batches \<and> (\<forall>d \<in> set bodies. not_found d = []) \<longrightarrow>
            sent (snd (fetch_all names
                         \<lparr>pending = map (Reply 200 None) bodies @ rest, sent = [], slept = []\<rparr>))
            = batches)"
proof -
  let ?batches = "chunked_from 0 names 75"
  have len: "length ?batches = (length names + 74) div 75"
    by (simp add: chunked_from_length)
  have cat: "concat ?batches = names"
    by (simp add: chunked_from_concat)
  have sizes: "\<forall>b \<in> set ?batches. b \<noteq> [] \<and> length b \<le> 75"
    using chunked_from_sizes by blast
  have one: "length names = 75 \<longrightarrow> ?batches = [names]"
    by (simp add: chunked_from.simps [of 0] chunked_from.simps [of 75])
  have two: "length names = 76 \<longrightarrow> ?batches = [take 75 names, drop 75 names]
            \<and> map length ?batches = [75, 1]"
    by (simp add: chunked_from.simps [of 0] chunked_from.simps [of 75] chunked_from.simps [of 150])
  have run: "length bodies = length ?batches \<and> (\<forall>d \<in> set bodies. not_found d = []) \<longrightarrow>
            sent (snd (fetch_all names
                         \<lparr>pending = map (Reply 200 None) bodies @ rest, sent = [], slept = []\<rparr>))
            = ?batches"
    by (simp add: fetch_all_def chunked_limit fetch_batches_found)
  from len cat sizes one two run show ?thesis
    by (intro exI [of _ ?batches]) (simp only: chunked_limit simp_thms)
qed


theorem primary_requests_are_batches_of_75_witness:
  "chunked (map (\<lambda>n. replicate n CHR ''a'') [1..<76]) BATCH_LIMIT
     = Inr [map (\<lambda>n. replicate n CHR ''a'') [1..<76]]
   \<and> chunked (map (\<lambda>n. replicate n CHR ''a'') [1..<77]) BATCH_LIMIT
     = Inr [map (\<lambda>n. replicate n CHR ''a'') [1..<76], [replicate 76 CHR ''a'']]
   \<and> sent (snd (fetch_all [''Island'', ''Forest'']
                  \<lparr>pending = [Reply 200 None \<lparr>data = [], not_found = []\<rparr>], sent = [], slept = []\<rparr>))
     = [[''Island'', ''Forest'']]"
proof -
  let ?f = "\<lambda>n. replicate n CHR ''a''"
  from primary_requests_are_batches_of_75 [of "map ?f [1..<76]"]
  obtain b75 where "chunked (map ?f [1..<76]) BATCH_LIMIT = Inr b75"
    and "length (map ?f [1..<76]) = 75 \<longrightarrow> b75 = [map ?f [1..<76]]"
    by blast
  then have a: "chunked (map ?f [1..<76]) BATCH_LIMIT = Inr [map ?f [1..<76]]"
    by simp
  from primary_requests_are_batches_of_75 [of "map ?f [1..<77]"]
  obtain b76 where "chunked (map ?f [1..<77]) BATCH_LIMIT = Inr b76"
    and "length (map ?f [1..<77]) = 76 \<longrightarrow>
           b76 = [take 75 (map ?f [1..<77]), drop 75 (map ?f [1..<77])] \<and> map length b76 = [75, 1]"
    by blast
  then have b: "chunked (map ?f [1..<77]) BATCH_LIMIT = Inr [map ?f [1..<76], [replicate 76 CHR ''a'']]"
    by (simp add: take_map drop_map)
  from primary_requests_are_batches_of_75 [of "[''Island'', ''Forest'']"
      "[\<lparr>data = [], not_found = []\<rparr>]" "[]"]
  obtain bs where len: "length bs = (length [''Island'', ''Forest''] + 74) div 75"
    and cat: "concat bs = [''Island'', ''Forest'']"
    and run: "length [\<lparr>data = [], not_found = []\<rparr>] = length bs
              \<and> (\<forall>d \<in> set [\<lparr>data = [], not_found = []\<rparr>]. not_found d = []) \<longrightarrow>
              sent (snd (fetch_all [''Island'', ''Forest'']
                  \<lparr>pending = map (Reply 200 None) [\<lparr>data = [], not_found = []\<rparr>] @ [],
                    sent = [], slept = []\<rparr>)) = bs"
    by blast
  from len have "length bs = 1" by simp
  with cat have "bs = [[''Island'', ''Forest'']]"
    by (cases bs) auto
  with run have c: "sent (snd (fetch_all [''Island'', ''Forest'']
                  \<lparr>pending = [Reply 200 None \<lparr>data = [], not_found = []\<rparr>], sent = [], slept = []\<rparr>))
     = [[''Island'', ''Forest'']]"
    by simp
  from a b c show ?thesis by blast
qed

section \<open>Front-face retry\<close>

lemma set_add_unseen: "set (add_unseen s xs) = set s \<union> set xs"
  by (induction xs arbitrary: s) auto

lemma distinct_add_unseen: "distinct s \<Longrightarrow> distinct (add_unseen s xs)"
  by (induction xs arbitrary: s) auto

lemma retry_set_of_props:
  "set (retry_set_of fs) = set fs" "distinct (retry_set_of fs)" "sorted (map lower (retry_set_of fs))"
  by (simp_all add: retry_set_of_def set_add_unseen distinct_add_unseen)

lemma fetch_retries_found:
  "length bodies = length subs \<Longrightarrow>
   fetch_retries subs results \<lparr>pending = map (Reply 200 None) bodies @ rest, sent = sn, slept = sl\<rparr>
   = (Inr (foldl (\<lambda>r d. store_cards (data d) r) results bodies),
      \<lparr>pending = rest, sent = sn @ subs, slept = sl\<rparr>)"
proof (induction subs arbitrary: bodies results sn)
  case Nil
  then show ?case by simp
next
  case (Cons sub subs)
  then obtain d ds where bodies: "bodies = d # ds"
    by (cases bodies) auto
  with Cons.prems have "length ds = length subs"
    by simp
  with Cons.IH [of ds "store_cards (data d) results" "sn @ [sub]"] show ?case
    by (simp add: bodies fetch_batch_ok)
qed

lemma front_faces_case_variants: "front_faces [''Ab // X'', ''ab // Y''] = [''Ab'', ''ab'']"
  by code_simp

lemma lower_case_variants: "lower ''Ab'' = lower ''ab''"
  by code_simp

text \<open>
  C5, as the code has it. The retry candidates of a batch are deduplicated as exact
  strings (\<^verbatim>\<open>set(front_face_retry)\<close>: two candidates that differ in letter case are
  two retry identifiers), then sorted by their lower-case form, and sent through
  \<^verbatim>\<open>chunked(retry_set, BATCH_LIMIT)\<close> and \<open>fetch_batch\<close>, the path of the primary
  requests: when each retry request is answered at once with a 200, the requests sent are
  the slices of the sorted candidates.
\<close>

theorem retry_candidates_deduplicated_exactly:
  "set (retry_set_of front_face_retry) = set front_face_retry
   \<and> distinct (retry_set_of front_face_retry)
   \<and> sorted (map lower (retry_set_of front_face_retry))
   \<and> (\<exists>subs. chunked (retry_set_of (front_faces nf_names)) BATCH_LIMIT = Inr subs
          \<and> concat subs = retry_set_of (front_faces nf_names)
          \<and> (those (map nf_name nf) = Some nf_names \<and> front_faces nf_names \<noteq> []
               \<and> length bodies = length subs \<longrightarrow>
               sent (snd (handle_not_found nf results unresolved
                            \<lparr>pending = map (Reply 200 None) bodies @ rest, sent = sn, slept = sl\<rparr>))
               = sn @ subs))"
proof -
  let ?subs = "chunked_from 0 (retry_set_of (front_faces nf_names)) 75"
  have "those (map nf_name nf) = Some nf_names \<and> front_faces nf_names \<noteq> []
               \<and> length bodies = length ?subs \<longrightarrow>
               sent (snd (handle_not_found nf results unresolved
                            \<lparr>pending = map (Reply 200 None) bodies @ rest, sent = sn, slept = sl\<rparr>))
               = sn @ ?subs"
    by (simp add: handle_not_found_def chunked_limit fetch_retries_found)
  moreover have "concat ?subs = retry_set_of (front_faces nf_names)"
    by (simp add: chunked_from_concat)
  ultimately have "\<exists>subs. chunked (retry_set_of (front_faces nf_names)) BATCH_LIMIT = Inr subs
          \<and> concat subs = retry_set_of (front_faces nf_names)
          \<and> (those (map nf_name nf) = Some nf_names \<and> front_faces nf_names \<noteq> []
               \<and> length bodies = length subs \<longrightarrow>
               sent (snd (handle_not_found nf results unresolved
                            \<lparr>pending = map (Reply 200 None) bodies @ rest, sent = sn, slept = sl\<rparr>))
               = sn @ subs)"
    by (intro exI [of _ ?subs]) (simp only: chunked_limit simp_thms)
  then show ?thesis
    by (simp only: retry_set_of_props simp_thms)
qed

theorem retry_candidates_deduplicated_exactly_witness:
  "distinct (retry_set_of [''Ab'', ''ab'', ''Ab''])
   \<and> set (retry_set_of [''Ab'', ''ab'', ''Ab'']) = {''Ab'', ''ab''}
   \<and> sent (snd (handle_not_found [NfDict (Some ''Ab // X''), NfOther ''ab // Y''] [] []
                  \<lparr>pending = [Reply 200 None \<lparr>data = [], not_found = []\<rparr>], sent = [], slept = []\<rparr>))
     = [retry_set_of [''Ab'', ''ab'']]"
proof -
  note t = retry_candidates_deduplicated_exactly [where front_face_retry = "[''Ab'', ''ab'', ''Ab'']"
      and nf_names = "[''Ab // X'', ''ab // Y'']" and nf = "[NfDict (Some ''Ab // X''), NfOther ''ab // Y'']"
      and bodies = "[\<lparr>data = [], not_found = []\<rparr>]" and rest = "[]" and sn = "[]" and sl = "[]"
      and results = "[]" and unresolved = "[]"]
  from t have a: "distinct (retry_set_of [''Ab'', ''ab'', ''Ab''])"
    and b: "set (retry_set_of [''Ab'', ''ab'', ''Ab'']) = {''Ab'', ''ab''}"
    by auto
  from t obtain subs where ch: "chunked (retry_set_of (front_faces [''Ab // X'', ''ab // Y''])) BATCH_LIMIT = Inr subs"
    and cat: "concat subs = retry_set_of (front_faces [''Ab // X'', ''ab // Y''])"
    and run: "those (map nf_name [NfDict (Some ''Ab // X''), NfOther ''ab // Y'']) = Some [''Ab // X'', ''ab // Y'']
               \<and> front_faces [''Ab // X'', ''ab // Y''] \<noteq> []
               \<and> length [\<lparr>data = [], not_found = []\<rparr>] = length subs \<longrightarrow>
               sent (snd (handle_not_found [NfDict (Some ''Ab // X''), NfOther ''ab // Y''] [] []
                            \<lparr>pending = map (Reply 200 None) [\<lparr>data = [], not_found = []\<rparr>] @ [],
                              sent = [], slept = []\<rparr>))
               = [] @ subs"
    by blast
  have len2: "length (retry_set_of [''Ab'', ''ab'']) = 2"
    by (simp add: retry_set_of_def)
  from ch [unfolded front_faces_case_variants] have "subs = chunked_from 0 (retry_set_of [''Ab'', ''ab'']) 75"
    by (simp add: chunked_limit)
  then have "length subs = 1"
    by (simp add: chunked_from_length len2)
  with cat [unfolded front_faces_case_variants] have subs: "subs = [retry_set_of [''Ab'', ''ab'']]"
    by (cases subs) auto
  have "those (map nf_name [NfDict (Some ''Ab // X''), NfOther ''ab // Y'']) = Some [''Ab // X'', ''ab // Y'']"
    by (simp add: nf_name_def)
  with run [unfolded front_faces_case_variants] subs
  have "sent (snd (handle_not_found [NfDict (Some ''Ab // X''), NfOther ''ab // Y''] [] []
                  \<lparr>pending = [Reply 200 None \<lparr>data = [], not_found = []\<rparr>], sent = [], slept = []\<rparr>))
     = [retry_set_of [''Ab'', ''ab'']]"
    by simp
  with a b show ?thesis by blast
qed

text \<open>
  The claim of C5 as first stated fails on two not-found names whose front faces differ
  only in case: both stay in the retry set.
\<close>

theorem retry_candidates_case_counterexample:
  "front_faces [''Ab // X'', ''ab // Y''] = [''Ab'', ''ab'']
   \<and> lower ''Ab'' = lower ''ab''
   \<and> set (retry_set_of [''Ab'', ''ab'']) = {''Ab'', ''ab''}
   \<and> length (retry_set_of [''Ab'', ''ab'']) = 2"
proof -
  have "set (retry_set_of [''Ab'', ''ab'']) = {''Ab'', ''ab''}"
    by (simp add: retry_set_of_props(1))
  moreover have "length (retry_set_of [''Ab'', ''ab'']) = 2"
    by (simp add: retry_set_of_def)
  ultimately show ?thesis
    using front_faces_case_variants lower_case_variants by blast
qed

lemma front_faces_nonempty:
  "original \<in> set nf_names \<Longrightarrow> contains_sep original \<Longrightarrow> strip (front_of original) \<noteq> []
   \<Longrightarrow> front_faces nf_names \<noteq> []"
  by (induction nf_names) (auto simp: Let_def)

lemma handle_not_found_result:
  assumes "handle_not_found nf results unresolved w = (Inr (results', unresolved', resolved), w')"
    and "those (map nf_name nf) = Some nf_names"
  shows "resolved = (if front_faces nf_names = [] then [] else filter (resolved_by_retry results') nf_names)"
    and "unresolved' = add_unseen unresolved (filter (\<lambda>n. n \<notin> set resolved) nf_names)"
  using assms
  by (auto simp: handle_not_found_def Let_def chunked_limit split: if_splits prod.splits sum.splits)

lemma resolved_by_retry_iff:
  "resolved_by_retry results original
   \<longleftrightarrow> (\<exists>key \<in> set (map fst results). lower key = lower original)"
  unfolding resolved_by_retry_def by (induction results) auto

lemma chunked_from_single: "chunked_from 0 [x] 75 = [[x]]"
  by (simp add: chunked_from.simps [of 0] chunked_from.simps [of 75])

lemma contains_sep_nonempty: "contains_sep s \<Longrightarrow> s \<noteq> []"
  by (auto simp: contains_sep_def SEP_def)

lemma delver_sep: "contains_sep ''Delver of Secrets // Insectile Aberration''"
  by code_simp

lemma delver_front: "strip (front_of ''Delver of Secrets // Insectile Aberration'') = ''Delver of Secrets''"
  by code_simp

lemma delver_retry:
  "handle_not_found [NfDict (Some ''Delver of Secrets // Insectile Aberration'')] [] []
     \<lparr>pending = [Reply 200 None \<lparr>data = [\<lparr>card_name = Some ''Delver of Secrets // Insectile Aberration'', card_id = Some ''11bf83bb'', card_doc = []\<rparr>], not_found = []\<rparr>], sent = [[''Delver of Secrets // Insectile Aberration'']], slept = []\<rparr>
   = (Inr ([(''Delver of Secrets // Insectile Aberration'', \<lparr>card_name = Some ''Delver of Secrets // Insectile Aberration'', card_id = Some ''11bf83bb'', card_doc = []\<rparr>)], [], [''Delver of Secrets // Insectile Aberration'']),
      \<lparr>pending = [], sent = [[''Delver of Secrets // Insectile Aberration''], [''Delver of Secrets'']], slept = []\<rparr>)"
  by code_simp

lemma space_is_space: "is_space CHR '' ''"
  by code_simp

lemma strip_starts_unspaced:
  assumes "strip l \<noteq> []"
  shows "\<exists>y ys. strip l = y # ys \<and> \<not> is_space y"
proof -
  let ?d = "dropWhile is_space l"
  have "?d \<noteq> []"
  proof
    assume e: "?d = []"
    have "strip l = rev (dropWhile is_space (rev ?d))"
      by (simp add: strip_def)
    also have "\<dots> = []"
      unfolding e by simp
    finally show False
      using assms by simp
  qed
  then obtain y d' where d: "?d = y # d'"
    by (cases ?d) auto
  then have y: "\<not> is_space y"
    using hd_dropWhile [of is_space l] by auto
  have "rev ?d = rev d' @ [y]"
    by (simp add: d)
  with y have "dropWhile is_space (rev ?d) = dropWhile is_space (rev d') @ [y]"
    by (simp add: dropWhile_append3)
  then have "strip l = y # rev (dropWhile is_space (rev d'))"
    by (simp add: strip_def)
  with y show ?thesis by blast
qed

lemma strip_unspaced_nonempty: "\<not> is_space y \<Longrightarrow> strip (y # b) \<noteq> []"
  by (simp add: strip_def dropWhile_append3)

lemma read_lines_stripped:
  "\<forall>n \<in> set names. \<exists>l. n = strip l \<and> n \<noteq> [] \<Longrightarrow> x \<in> set (read_lines names ls)
   \<Longrightarrow> \<exists>l. x = strip l \<and> x \<noteq> []"
proof (induction ls arbitrary: names)
  case Nil
  then show ?case by simp
next
  case (Cons line ls)
  show ?case
  proof (cases "strip line = [] \<or> startswith (strip line) ''#'' \<or> strip line \<in> set names")
    case True
    with Cons.prems(2) have "x \<in> set (read_lines names ls)"
      by (auto simp: Let_def split: if_splits)
    with Cons.IH [OF Cons.prems(1)] show ?thesis by blast
  next
    case False
    with Cons.prems(2) have in_rest: "x \<in> set (read_lines (names @ [strip line]) ls)"
      by (auto simp: Let_def split: if_splits)
    from False Cons.prems(1) have "\<forall>n \<in> set (names @ [strip line]). \<exists>l. n = strip l \<and> n \<noteq> []"
      by auto
    from Cons.IH [OF this in_rest] show ?thesis .
  qed
qed

lemma read_names_unspaced:
  assumes "read_names file = Inr names" and "n \<in> set names"
  shows "\<exists>y ys. n = y # ys \<and> \<not> is_space y"
proof -
  from assms obtain ls where "n \<in> set (read_lines [] ls)"
    by (auto simp: read_names_def split: option.splits)
  then obtain l where "n = strip l" and "n \<noteq> []"
    using read_lines_stripped [of "[]" n ls] by auto
  then show ?thesis
    using strip_starts_unspaced [of l] by simp
qed

lemma composite_front_nonempty:
  assumes "\<not> is_space y" and "contains_sep (y # ys)"
  shows "strip (front_of (y # ys)) \<noteq> []"
proof -
  from assms(1) have "y \<noteq> CHR '' ''"
    using space_is_space by auto
  then have "\<not> startswith (y # ys) SEP"
    by (auto simp: startswith_def SEP_def)
  with assms(2) obtain b a where "split_once SEP ys = Some (b, a)"
    by (auto simp: contains_sep_def split: option.splits)
  with \<open>\<not> startswith (y # ys) SEP\<close> have "front_of (y # ys) = y # b"
    by (simp add: front_of_def)
  with assms(1) show ?thesis
    by (simp add: strip_unspaced_nonempty)
qed

lemma read_name_front_nonempty:
  "read_names file = Inr names \<Longrightarrow> n \<in> set names \<Longrightarrow> contains_sep n
   \<Longrightarrow> strip (front_of n) \<noteq> []"
  using read_names_unspaced composite_front_nonempty by blast

lemma delver_names: "read_names (Some [''Delver of Secrets // Insectile Aberration'']) = Inr [''Delver of Secrets // Insectile Aberration'']"
  by code_simp

text \<open>
  C4. Names reach the lookup only through \<open>read_names\<close>, which strips them, and the
  provider reports as not found names it was asked for. For every such name that contains
  \<^verbatim>\<open>" // "\<close> the front face is not empty, so a retry is queued, and the name is
  classified as resolved by retry if and only if some key of the accumulated results
  equals the whole name, compared in lower case; it joins the unresolved set exactly when
  it is not so classified (or was unresolved before). No name at all is classified as
  resolved without such a key. In the scenario of the claim (a composite name read from
  the input, reported not found, whose front-face retry returns a record named exactly
  like it) the results hold that name as a key, the unresolved list is empty, and
  \<open>main\<close> writes the record and reports nothing missing.
\<close>

theorem composite_resolved_by_retry:
  "(those (map nf_name nf) = Some nf_names
      \<and> handle_not_found nf results unresolved w
          = (Inr (results', unresolved', resolved_this_batch), w') \<longrightarrow>
      (original \<in> set resolved_this_batch \<longrightarrow>
         original \<in> set nf_names \<and> (\<exists>key \<in> set (map fst results'). lower key = lower original))
      \<and> (read_names input = Inr names \<and> original \<in> set names \<and> original \<in> set nf_names
           \<and> contains_sep original \<longrightarrow>
           (original \<in> set resolved_this_batch
              \<longleftrightarrow> (\<exists>key \<in> set (map fst results'). lower key = lower original))
           \<and> (original \<in> set unresolved'
              \<longleftrightarrow> original \<in> set unresolved \<or> original \<notin> set resolved_this_batch)))
   \<and> (read_names input' = Inr [nm] \<and> contains_sep nm \<and> card_name c = Some nm \<longrightarrow>
        fetch_all [nm]
          \<lparr>pending = [Reply 200 None \<lparr>data = [], not_found = [NfDict (Some nm)]\<rparr>,
                      Reply 200 None \<lparr>data = [c], not_found = []\<rparr>],
            sent = [], slept = []\<rparr>
        = (Inr ([(nm, c)], []),
           \<lparr>pending = [], sent = [[nm], [strip (front_of nm)]], slept = []\<rparr>)
        \<and> fst (main input' order
                 \<lparr>pending = [Reply 200 None \<lparr>data = [], not_found = [NfDict (Some nm)]\<rparr>,
                             Reply 200 None \<lparr>data = [c], not_found = []\<rparr>],
                   sent = [], slept = []\<rparr>)
          = Inr \<lparr>written = [c], mapped = {nm}, ordering_unresolved = [], combined_unresolved = []\<rparr>)"
proof -
  have first: "(original \<in> set resolved_this_batch \<longrightarrow>
         original \<in> set nf_names \<and> (\<exists>key \<in> set (map fst results'). lower key = lower original))
      \<and> (read_names input = Inr names \<and> original \<in> set names \<and> original \<in> set nf_names
           \<and> contains_sep original \<longrightarrow>
           (original \<in> set resolved_this_batch
              \<longleftrightarrow> (\<exists>key \<in> set (map fst results'). lower key = lower original))
           \<and> (original \<in> set unresolved'
              \<longleftrightarrow> original \<in> set unresolved \<or> original \<notin> set resolved_this_batch))"
    if names: "those (map nf_name nf) = Some nf_names"
      and run: "handle_not_found nf results unresolved w
          = (Inr (results', unresolved', resolved_this_batch), w')"
  proof -
    note r = handle_not_found_result [OF run names]
    have only_if: "original \<in> set resolved_this_batch \<longrightarrow>
         original \<in> set nf_names \<and> (\<exists>key \<in> set (map fst results'). lower key = lower original)"
    proof -
      from r(1) have "original \<in> set resolved_this_batch \<longrightarrow>
          original \<in> set nf_names \<and> resolved_by_retry results' original"
        by (auto split: if_splits)
      then show ?thesis
        using resolved_by_retry_iff by blast
    qed
    have iff: "(original \<in> set resolved_this_batch
              \<longleftrightarrow> (\<exists>key \<in> set (map fst results'). lower key = lower original))
           \<and> (original \<in> set unresolved'
              \<longleftrightarrow> original \<in> set unresolved \<or> original \<notin> set resolved_this_batch)"
      if "read_names input = Inr names" and "original \<in> set names" and nf: "original \<in> set nf_names"
        and sep: "contains_sep original"
    proof -
      from that(1,2) sep have "strip (front_of original) \<noteq> []"
        by (rule read_name_front_nonempty)
      with nf sep have "front_faces nf_names \<noteq> []"
        by (rule front_faces_nonempty)
      with r(1) nf have "original \<in> set resolved_this_batch \<longleftrightarrow> resolved_by_retry results' original"
        by auto
      then have a: "original \<in> set resolved_this_batch
              \<longleftrightarrow> (\<exists>key \<in> set (map fst results'). lower key = lower original)"
        using resolved_by_retry_iff by blast
      from r(2) nf have b: "original \<in> set unresolved'
              \<longleftrightarrow> original \<in> set unresolved \<or> original \<notin> set resolved_this_batch"
        by (auto simp: set_add_unseen)
      from a b show ?thesis by blast
    qed
    from only_if iff show ?thesis by blast
  qed
  have second: "fetch_all [nm]
          \<lparr>pending = [Reply 200 None \<lparr>data = [], not_found = [NfDict (Some nm)]\<rparr>,
                      Reply 200 None \<lparr>data = [c], not_found = []\<rparr>],
            sent = [], slept = []\<rparr>
        = (Inr ([(nm, c)], []),
           \<lparr>pending = [], sent = [[nm], [strip (front_of nm)]], slept = []\<rparr>)
        \<and> fst (main input' order
                 \<lparr>pending = [Reply 200 None \<lparr>data = [], not_found = [NfDict (Some nm)]\<rparr>,
                             Reply 200 None \<lparr>data = [c], not_found = []\<rparr>],
                   sent = [], slept = []\<rparr>)
          = Inr \<lparr>written = [c], mapped = {nm}, ordering_unresolved = [], combined_unresolved = []\<rparr>"
    if rn: "read_names input' = Inr [nm]" and sep: "contains_sep nm" and c: "card_name c = Some nm"
  proof -
    from sep have ne: "nm \<noteq> []" by (rule contains_sep_nonempty)
    have "nm \<in> set [nm]" by simp
    with rn have front: "strip (front_of nm) \<noteq> []"
      using sep by (rule read_name_front_nonempty)
    have rs: "retry_set_of [strip (front_of nm)] = [strip (front_of nm)]"
      by (simp add: retry_set_of_def)
    have h: "handle_not_found [NfDict (Some nm)] [] []
               \<lparr>pending = [Reply 200 None \<lparr>data = [c], not_found = []\<rparr>], sent = [[nm]], slept = []\<rparr>
             = (Inr ([(nm, c)], [], [nm]),
                \<lparr>pending = [], sent = [[nm], [strip (front_of nm)]], slept = []\<rparr>)"
      using sep front c ne
      by (simp add: handle_not_found_def nf_name_def Let_def rs chunked_limit chunked_from_single
            fetch_batch_ok resolved_by_retry_def)
    have fetched: "fetch_all [nm]
          \<lparr>pending = [Reply 200 None \<lparr>data = [], not_found = [NfDict (Some nm)]\<rparr>,
                      Reply 200 None \<lparr>data = [c], not_found = []\<rparr>],
            sent = [], slept = []\<rparr>
        = (Inr ([(nm, c)], []),
           \<lparr>pending = [], sent = [[nm], [strip (front_of nm)]], slept = []\<rparr>)"
      by (simp add: fetch_all_def chunked_limit chunked_from_single fetch_batch_ok h)
    have lm: "lower_map_of [(nm, c)] = [(lower nm, c)]"
      by (simp add: lower_map_of_def)
    have res: "resolve_input_name [(lower nm, c)] nm = Some c"
      by (simp add: resolve_input_name_def)
    have asm: "assemble [(lower nm, c)] [nm] \<lparr>ordered_cards = [], seen_ids = {}, mapped_names = {}\<rparr>
          = \<lparr>ordered_cards = [c], seen_ids = (if truthy (card_id c) then {the (card_id c)} else {}),
              mapped_names = {nm}\<rparr>"
      using res by (simp add: assemble.simps(2) Let_def)
    have "reassemble order [nm] [(nm, c)] []
          = \<lparr>written = [c], mapped = {nm}, ordering_unresolved = [], combined_unresolved = []\<rparr>"
      by (cases order) (simp_all add: reassemble_def lm asm Let_def del: assemble.simps)
    with rn fetched ne have "fst (main input' order
                 \<lparr>pending = [Reply 200 None \<lparr>data = [], not_found = [NfDict (Some nm)]\<rparr>,
                             Reply 200 None \<lparr>data = [c], not_found = []\<rparr>],
                   sent = [], slept = []\<rparr>)
          = Inr \<lparr>written = [c], mapped = {nm}, ordering_unresolved = [], combined_unresolved = []\<rparr>"
      by (simp add: main_def)
    with fetched show ?thesis by blast
  qed
  from first second show ?thesis by blast
qed

theorem composite_resolved_by_retry_witness:
  "read_names (Some [''Delver of Secrets // Insectile Aberration'']) = Inr [''Delver of Secrets // Insectile Aberration'']
   \<and> contains_sep ''Delver of Secrets // Insectile Aberration''
   \<and> handle_not_found [NfDict (Some ''Delver of Secrets // Insectile Aberration'')] [] []
       \<lparr>pending = [Reply 200 None \<lparr>data = [\<lparr>card_name = Some ''Delver of Secrets // Insectile Aberration'', card_id = Some ''11bf83bb'', card_doc = []\<rparr>], not_found = []\<rparr>], sent = [[''Delver of Secrets // Insectile Aberration'']], slept = []\<rparr>
     = (Inr ([(''Delver of Secrets // Insectile Aberration'', \<lparr>card_name = Some ''Delver of Secrets // Insectile Aberration'', card_id = Some ''11bf83bb'', card_doc = []\<rparr>)], [], [''Delver of Secrets // Insectile Aberration'']),
        \<lparr>pending = [], sent = [[''Delver of Secrets // Insectile Aberration''], [''Delver of Secrets'']], slept = []\<rparr>)
   \<and> (''Delver of Secrets // Insectile Aberration'' \<in> set [''Delver of Secrets // Insectile Aberration''] \<longleftrightarrow> (\<exists>key \<in> set (map fst [(''Delver of Secrets // Insectile Aberration'', \<lparr>card_name = Some ''Delver of Secrets // Insectile Aberration'', card_id = Some ''11bf83bb'', card_doc = []\<rparr>)]). lower key = lower ''Delver of Secrets // Insectile Aberration''))
   \<and> fetch_all [''Delver of Secrets // Insectile Aberration'']
        \<lparr>pending = [Reply 200 None \<lparr>data = [], not_found = [NfDict (Some ''Delver of Secrets // Insectile Aberration'')]\<rparr>,
                    Reply 200 None \<lparr>data = [\<lparr>card_name = Some ''Delver of Secrets // Insectile Aberration'', card_id = Some ''11bf83bb'', card_doc = []\<rparr>], not_found = []\<rparr>],
          sent = [], slept = []\<rparr>
      = (Inr ([(''Delver of Secrets // Insectile Aberration'', \<lparr>card_name = Some ''Delver of Secrets // Insectile Aberration'', card_id = Some ''11bf83bb'', card_doc = []\<rparr>)], []),
         \<lparr>pending = [], sent = [[''Delver of Secrets // Insectile Aberration''], [''Delver of Secrets'']], slept = []\<rparr>)
   \<and> fst (main (Some [''Delver of Secrets // Insectile Aberration'']) SortInput
        \<lparr>pending = [Reply 200 None \<lparr>data = [], not_found = [NfDict (Some ''Delver of Secrets // Insectile Aberration'')]\<rparr>,
                    Reply 200 None \<lparr>data = [\<lparr>card_name = Some ''Delver of Secrets // Insectile Aberration'', card_id = Some ''11bf83bb'', card_doc = []\<rparr>], not_found = []\<rparr>],
          sent = [], slept = []\<rparr>)
      = Inr \<lparr>written = [\<lparr>card_name = Some ''Delver of Secrets // Insectile Aberration'', card_id = Some ''11bf83bb'', card_doc = []\<rparr>], mapped = {''Delver of Secrets // Insectile Aberration''}, ordering_unresolved = [], combined_unresolved = []\<rparr>"
proof -
  note t = composite_resolved_by_retry [where nm = "''Delver of Secrets // Insectile Aberration''" and c = "\<lparr>card_name = Some ''Delver of Secrets // Insectile Aberration'', card_id = Some ''11bf83bb'', card_doc = []\<rparr>"
      and input' = "Some [''Delver of Secrets // Insectile Aberration'']" and input = "Some [''Delver of Secrets // Insectile Aberration'']" and names = "[''Delver of Secrets // Insectile Aberration'']" and order = SortInput
      and nf = "[NfDict (Some ''Delver of Secrets // Insectile Aberration'')]" and results = "[]" and unresolved = "[]"
      and w = "\<lparr>pending = [Reply 200 None \<lparr>data = [\<lparr>card_name = Some ''Delver of Secrets // Insectile Aberration'', card_id = Some ''11bf83bb'', card_doc = []\<rparr>], not_found = []\<rparr>], sent = [[''Delver of Secrets // Insectile Aberration'']], slept = []\<rparr>"
      and results' = "[(''Delver of Secrets // Insectile Aberration'', \<lparr>card_name = Some ''Delver of Secrets // Insectile Aberration'', card_id = Some ''11bf83bb'', card_doc = []\<rparr>)]" and unresolved' = "[]" and resolved_this_batch = "[''Delver of Secrets // Insectile Aberration'']"
      and w' = "\<lparr>pending = [], sent = [[''Delver of Secrets // Insectile Aberration''], [''Delver of Secrets'']], slept = []\<rparr>"
      and nf_names = "[''Delver of Secrets // Insectile Aberration'']" and original = "''Delver of Secrets // Insectile Aberration''"]
  have names: "those (map nf_name [NfDict (Some ''Delver of Secrets // Insectile Aberration'')]) = Some [''Delver of Secrets // Insectile Aberration'']"
    by (simp add: nf_name_def)
  from t [THEN conjunct1] delver_retry names delver_names delver_sep
  have a: "''Delver of Secrets // Insectile Aberration'' \<in> set [''Delver of Secrets // Insectile Aberration''] \<longleftrightarrow> (\<exists>key \<in> set (map fst [(''Delver of Secrets // Insectile Aberration'', \<lparr>card_name = Some ''Delver of Secrets // Insectile Aberration'', card_id = Some ''11bf83bb'', card_doc = []\<rparr>)]). lower key = lower ''Delver of Secrets // Insectile Aberration'')"
    by simp
  from t [THEN conjunct2] delver_names delver_sep
  have b: "fetch_all [''Delver of Secrets // Insectile Aberration'']
        \<lparr>pending = [Reply 200 None \<lparr>data = [], not_found = [NfDict (Some ''Delver of Secrets // Insectile Aberration'')]\<rparr>,
                    Reply 200 None \<lparr>data = [\<lparr>card_name = Some ''Delver of Secrets // Insectile Aberration'', card_id = Some ''11bf83bb'', card_doc = []\<rparr>], not_found = []\<rparr>],
          sent = [], slept = []\<rparr>
      = (Inr ([(''Delver of Secrets // Insectile Aberration'', \<lparr>card_name = Some ''Delver of Secrets // Insectile Aberration'', card_id = Some ''11bf83bb'', card_doc = []\<rparr>)], []),
         \<lparr>pending = [], sent = [[''Delver of Secrets // Insectile Aberration''], [''Delver of Secrets'']], slept = []\<rparr>)
   \<and> fst (main (Some [''Delver of Secrets // Insectile Aberration'']) SortInput
        \<lparr>pending = [Reply 200 None \<lparr>data = [], not_found = [NfDict (Some ''Delver of Secrets // Insectile Aberration'')]\<rparr>,
                    Reply 200 None \<lparr>data = [\<lparr>card_name = Some ''Delver of Secrets // Insectile Aberration'', card_id = Some ''11bf83bb'', card_doc = []\<rparr>], not_found = []\<rparr>],
          sent = [], slept = []\<rparr>)
      = Inr \<lparr>written = [\<lparr>card_name = Some ''Delver of Secrets // Insectile Aberration'', card_id = Some ''11bf83bb'', card_doc = []\<rparr>], mapped = {''Delver of Secrets // Insectile Aberration''}, ordering_unresolved = [], combined_unresolved = []\<rparr>"
    by (simp add: delver_front)
  from a b delver_retry delver_sep delver_names show ?thesis
    by blast
qed

section \<open>Reassembly of the output\<close>

lemma assemble_mapped:
  "mapped_names (assemble lm xs a)
   = mapped_names a \<union> {n \<in> set xs. resolve_input_name lm n \<noteq> None}"
  by (induction xs arbitrary: a) (auto simp: Let_def split: option.splits)





declare assemble.simps(2) [simp del]







lemma reassemble_fields:
  "written (reassemble order names cards un)
     = ordered_cards (assemble (lower_map_of cards)
         (case order of SortInput \<Rightarrow> names | SortAlpha \<Rightarrow> sort_key lower (map fst cards))
         \<lparr>ordered_cards = [], seen_ids = {}, mapped_names = {}\<rparr>)"
  "mapped (reassemble order names cards un)
     = {n \<in> set (case order of SortInput \<Rightarrow> names | SortAlpha \<Rightarrow> sort_key lower (map fst cards)).
          resolve_input_name (lower_map_of cards) n \<noteq> None}"
  "ordering_unresolved (reassemble order names cards un)
     = filter (\<lambda>n. n \<notin> mapped (reassemble order names cards un)) names"
  "combined_unresolved (reassemble order names cards un)
     = add_unseen [] (un @ ordering_unresolved (reassemble order names cards un))"
  by (simp_all add: reassemble_def Let_def assemble_mapped)




lemma read_lines_distinct: "distinct names \<Longrightarrow> distinct (read_lines names ls)"
  by (induction ls arbitrary: names) (auto simp: Let_def)

lemma island_run:
  "main (Some [''Island'', ''Fakename12345'', ''Island'']) SortInput
     \<lparr>pending = [Reply 200 None \<lparr>data = [\<lparr>card_name = Some ''Island'', card_id = Some ''b9ac7673'', card_doc = []\<rparr>], not_found = [NfDict (Some ''Fakename12345'')]\<rparr>],
       sent = [], slept = []\<rparr>
   = (Inr \<lparr>written = [\<lparr>card_name = Some ''Island'', card_id = Some ''b9ac7673'', card_doc = []\<rparr>], mapped = {''Island''}, ordering_unresolved = [''Fakename12345''],
           combined_unresolved = [''Fakename12345'']\<rparr>,
      \<lparr>pending = [], sent = [[''Island'', ''Fakename12345'']], slept = []\<rparr>)"
  by code_simp

lemma island_names:
  "read_names (Some [''Island'', ''Fakename12345'', ''Island'']) = Inr [''Island'', ''Fakename12345'']"
  by code_simp




text \<open>
  C1, as the code has it. For every run of \<open>main\<close> that returns: the names read are
  distinct; each of them is in the mapped set or in the reported unresolved list, never in
  neither; the names unmatched during reassembly are exactly the input names that are not
  mapped; the reported list has no duplicates and holds exactly the names \<open>fetch_all\<close>
  returned as unresolved and the unmatched names. With input order the mapped names are
  input names, so the two classifications together are the input names and the names
  \<open>fetch_all\<close> returned, and they overlap exactly in the mapped names that
  \<open>fetch_all\<close> returned as unresolved.
\<close>

theorem every_input_name_is_classified:
  assumes "main file order w = (Inr r, w')"
  shows "\<exists>names. read_names file = Inr names \<and> distinct names
      \<and> set names \<subseteq> mapped r \<union> set (combined_unresolved r)
      \<and> set (ordering_unresolved r) = set names - mapped r
      \<and> distinct (combined_unresolved r)
      \<and> (names \<noteq> [] \<longrightarrow>
           (\<exists>cards unresolved_names.
               fetch_all names w = (Inr (cards, unresolved_names), w')
             \<and> combined_unresolved r = add_unseen [] (unresolved_names @ ordering_unresolved r)
             \<and> set (combined_unresolved r) = set unresolved_names \<union> (set names - mapped r)
             \<and> (order = SortInput \<longrightarrow>
                   mapped r \<subseteq> set names
                 \<and> mapped r \<union> set (combined_unresolved r) = set names \<union> set unresolved_names
                 \<and> mapped r \<inter> set (combined_unresolved r) = mapped r \<inter> set unresolved_names)))"
proof -
  from assms obtain names where names: "read_names file = Inr names"
    by (cases "read_names file") (auto simp: main_def)
  then have dist: "distinct names"
    by (auto simp: read_names_def read_lines_distinct split: option.splits)
  show ?thesis
  proof (cases "names = []")
    case True
    with assms names have "r = \<lparr>written = [], mapped = {}, ordering_unresolved = [], combined_unresolved = []\<rparr>"
      by (simp add: main_def)
    with True names show ?thesis by simp
  next
    case False
    with assms names obtain cards un where fetched: "fetch_all names w = (Inr (cards, un), w')"
      and r: "r = reassemble order names cards un"
      by (auto simp: main_def split: prod.splits sum.splits)
    have ou: "set (ordering_unresolved r) = set names - mapped r"
      unfolding r by (auto simp: reassemble_fields(3))
    have cu: "combined_unresolved r = add_unseen [] (un @ ordering_unresolved r)"
      unfolding r by (simp add: reassemble_fields(4))
    then have cset: "set (combined_unresolved r) = set un \<union> (set names - mapped r)"
      by (simp add: set_add_unseen ou)
    have cdist: "distinct (combined_unresolved r)"
      unfolding cu by (simp add: distinct_add_unseen)
    have inp: "order = SortInput \<longrightarrow> mapped r \<subseteq> set names"
      unfolding r by (auto simp: reassemble_fields(2))
    from cset have cover: "set names \<subseteq> mapped r \<union> set (combined_unresolved r)"
      by auto
    from cset inp have sortinput: "order = SortInput \<longrightarrow>
                   mapped r \<subseteq> set names
                 \<and> mapped r \<union> set (combined_unresolved r) = set names \<union> set un
                 \<and> mapped r \<inter> set (combined_unresolved r) = mapped r \<inter> set un"
      by auto
    from names dist cover ou cdist fetched cu cset sortinput show ?thesis
      by blast
  qed
qed

theorem every_input_name_is_classified_witness:
  "main (Some [''Island'', ''Fakename12345'', ''Island'']) SortInput
     \<lparr>pending = [Reply 200 None \<lparr>data = [\<lparr>card_name = Some ''Island'', card_id = Some ''b9ac7673'', card_doc = []\<rparr>], not_found = [NfDict (Some ''Fakename12345'')]\<rparr>],
       sent = [], slept = []\<rparr>
   = (Inr \<lparr>written = [\<lparr>card_name = Some ''Island'', card_id = Some ''b9ac7673'', card_doc = []\<rparr>], mapped = {''Island''}, ordering_unresolved = [''Fakename12345''],
           combined_unresolved = [''Fakename12345'']\<rparr>,
      \<lparr>pending = [], sent = [[''Island'', ''Fakename12345'']], slept = []\<rparr>)
   \<and> read_names (Some [''Island'', ''Fakename12345'', ''Island'']) = Inr [''Island'', ''Fakename12345'']
   \<and> set [''Island'', ''Fakename12345''] \<subseteq> {''Island''} \<union> set [''Fakename12345'']
   \<and> set [''Fakename12345''] = set [''Island'', ''Fakename12345''] - {''Island''}"
proof -
  from every_input_name_is_classified [OF island_run]
  obtain names where "read_names (Some [''Island'', ''Fakename12345'', ''Island'']) = Inr names"
    and "set names \<subseteq> {''Island''} \<union> set [''Fakename12345'']"
    and "set [''Fakename12345''] = set names - {''Island''}"
    by auto
  with island_names island_run show ?thesis
    by simp
qed

text \<open>
  The claim of C1 as first stated fails on a composite name with a misspelt back face: the
  lookup and the front-face retry leave it unresolved in \<open>fetch_all\<close> (the record
  returned has another name), reassembly maps it by its front face, and it ends both
  mapped, with its card written, and reported as missing.
\<close>

theorem mapped_and_reported_counterexample:
  "fst (main (Some [''Delver of Secrets // Insectile Abberation'']) SortInput
          \<lparr>pending = [Reply 200 None \<lparr>data = [], not_found = [NfDict (Some ''Delver of Secrets // Insectile Abberation'')]\<rparr>,
                      Reply 200 None \<lparr>data = [\<lparr>card_name = Some ''Delver of Secrets // Insectile Aberration'', card_id = Some ''11bf83bb'', card_doc = []\<rparr>], not_found = []\<rparr>],
            sent = [], slept = []\<rparr>)
   = Inr \<lparr>written = [\<lparr>card_name = Some ''Delver of Secrets // Insectile Aberration'', card_id = Some ''11bf83bb'', card_doc = []\<rparr>], mapped = {''Delver of Secrets // Insectile Abberation''}, ordering_unresolved = [], combined_unresolved = [''Delver of Secrets // Insectile Abberation'']\<rparr>"
  by code_simp

end
